theory Spec2Isabelle
  imports Complex_Main "HOL-Library.Multiset"
begin

section \<open>Python values and exceptions\<close>

text \<open>
  The exceptions that the modelled code can raise. A function that can raise returns
  \<open>py_error + 'a\<close>, with \<open>Inl\<close> for the exception.
\<close>

datatype py_error =
    ZeroDivisionError
  | JSONDecodeError
  | KeyError
  | TypeError
  | ValueError
  | RuntimeError
  | IndexError
  | AttributeError
  | OtherError

section \<open>Frame Sampler: index selection for a discrete source\<close>

text \<open>
  Python's \<open>round(x)\<close> with one argument rounds to the nearest integer and breaks a tie
  towards the even neighbour. The quotient \<open>i * (n_frames - 1) / (num_frames - 1)\<close> is a
  true division of two integers; it is modelled by the exact rational quotient. (The
  double that Python computes is the correctly rounded quotient, which lies on the same
  side of every half-integer as the exact one as long as the numerator is below
  \<open>2 ^ 52\<close>; frame counts are far below that.)
\<close>

definition py_round :: "rat \<Rightarrow> int" where
  "py_round x =
     (let f = \<lfloor>x\<rfloor>; d = x - of_int f
      in if d < 1 / 2 then f
         else if 1 / 2 < d then f + 1
         else if even f then f else f + 1)"

text \<open>\<open>range(n)\<close> for a Python integer \<open>n\<close>: empty when \<open>n \<le> 0\<close>.\<close>

definition py_range :: "int \<Rightarrow> int list" where
  "py_range n = [0..n - 1]"

text \<open>
  The index selection of \<open>extract_frames\<close> (describe_gifs.py) and of
  \<open>extract_frames_gif\<close> (describe_sources.py); the two are the same code:
  \<^verbatim>\<open>
    if n_frames <= num_frames:
        indices = list(range(n_frames))
    else:
        indices = [round(i * (n_frames - 1) / (num_frames - 1)) for i in range(num_frames)]
  \<close>
  The comprehension divides by \<open>num_frames - 1\<close> for every \<open>i\<close> of the range, so it raises
  ZeroDivisionError exactly when the range is not empty and \<open>num_frames = 1\<close>.
\<close>

definition frame_indices :: "int \<Rightarrow> int \<Rightarrow> py_error + int list" where
  "frame_indices n_frames num_frames =
     (if n_frames \<le> num_frames then Inr (py_range n_frames)
      else if py_range num_frames \<noteq> [] \<and> num_frames - 1 = 0 then Inl ZeroDivisionError
      else Inr (map (\<lambda>i. py_round (of_int (i * (n_frames - 1)) / of_int (num_frames - 1)))
                  (py_range num_frames)))"

definition sample_index :: "int \<Rightarrow> int \<Rightarrow> int \<Rightarrow> int" where
  \<comment> \<open>the element that the comprehension computes for \<open>i\<close>\<close>
  "sample_index n_frames num_frames i =
     py_round (of_int (i * (n_frames - 1)) / of_int (num_frames - 1))"

section \<open>JSON values, Python strings\<close>

text \<open>
  What \<open>json.loads\<close> returns. A dict keeps its keys in insertion order and has each key
  once, so it is an association list; Python's \<open>None\<close> is \<open>JNull\<close>.
\<close>

datatype json =
    JNull
  | JBool bool
  | JNum int
  | JStr string
  | JArr "json list"
  | JObj "(string \<times> json) list"

text \<open>Truthiness, as \<open>if descriptions:\<close> and \<open>if result:\<close> test it.\<close>

fun py_truthy :: "json \<Rightarrow> bool" where
  "py_truthy JNull = False"
| "py_truthy (JBool b) = b"
| "py_truthy (JNum n) = (n \<noteq> 0)"
| "py_truthy (JStr s) = (s \<noteq> [])"
| "py_truthy (JArr xs) = (xs \<noteq> [])"
| "py_truthy (JObj kvs) = (kvs \<noteq> [])"

text \<open>
  \<open>data[key]\<close> with a string key: a dict looks the key up and raises KeyError when it is
  missing; every other JSON value raises TypeError (a list or a string wants an integer
  index, the others are not subscriptable).
\<close>

fun py_getitem :: "json \<Rightarrow> string \<Rightarrow> py_error + json" where
  "py_getitem (JObj kvs) k = (case map_of kvs k of None \<Rightarrow> Inl KeyError | Some v \<Rightarrow> Inr v)"
| "py_getitem _ k = Inl TypeError"

text \<open>\<open>set.add(v)\<close> raises TypeError for an unhashable value: a list or a dict.\<close>

fun py_hashable :: "json \<Rightarrow> bool" where
  "py_hashable (JArr _) = False"
| "py_hashable (JObj _) = False"
| "py_hashable _ = True"

text \<open>
  \<open>{**base, **extra}\<close>: the keys of \<open>extra\<close> are stored one after the other; a key that is
  already present keeps its place and takes the new value.
\<close>

fun dict_update :: "(string \<times> json) list \<Rightarrow> string \<Rightarrow> json \<Rightarrow> (string \<times> json) list" where
  "dict_update [] k v = [(k, v)]"
| "dict_update ((k', v') # kvs) k v =
     (if k' = k then (k, v) # kvs else (k', v') # dict_update kvs k v)"

fun dict_merge :: "(string \<times> json) list \<Rightarrow> (string \<times> json) list \<Rightarrow> (string \<times> json) list" where
  "dict_merge base [] = base"
| "dict_merge base ((k, v) # extra) = dict_merge (dict_update base k v) extra"

text \<open>
  \<open>str.strip()\<close>, \<open>str.startswith\<close>, \<open>str.split("\n")\<close>, \<open>"\n".join\<close>, \<open>sub in s\<close>.
  A \<open>char\<close> is a code point below U+0100. \<open>str.strip()\<close> removes the characters for
  which \<open>str.isspace\<close> holds; in this range these are the space, U+0009 to U+000D,
  U+001C to U+001F, U+0085 (next line) and U+00A0 (no-break space).
\<close>

definition py_isspace :: "char \<Rightarrow> bool" where
  "py_isspace c = (c \<in> set [CHR '' '', CHR 0x09, CHR 0x0A, CHR 0x0B, CHR 0x0C, CHR 0x0D,
                              CHR 0x1C, CHR 0x1D, CHR 0x1E, CHR 0x1F, CHR 0x85, CHR 0xA0])"

definition py_strip :: "string \<Rightarrow> string" where
  "py_strip s = rev (dropWhile py_isspace (rev (dropWhile py_isspace s)))"

definition py_startswith :: "string \<Rightarrow> string \<Rightarrow> bool" where
  "py_startswith s p = (take (length p) s = p)"

fun py_contains :: "string \<Rightarrow> string \<Rightarrow> bool" where
  "py_contains sub [] = (sub = [])"
| "py_contains sub (c # cs) = (py_startswith (c # cs) sub \<or> py_contains sub cs)"

fun py_split_lines :: "string \<Rightarrow> string list" where
  "py_split_lines [] = [[]]"
| "py_split_lines (c # cs) =
     (if c = CHR 0x0A then [] # py_split_lines cs
      else (case py_split_lines cs of
              [] \<Rightarrow> [[c]]
            | l # ls \<Rightarrow> (c # l) # ls))"

fun py_join_lines :: "string list \<Rightarrow> string" where
  "py_join_lines [] = []"
| "py_join_lines [l] = l"
| "py_join_lines (l # ls) = l @ [CHR 0x0A] @ py_join_lines ls"

text \<open>\<open>xs[:n]\<close> for a Python integer \<open>n\<close>: a negative \<open>n\<close> counts from the end.\<close>

definition py_slice_to :: "'a list \<Rightarrow> int \<Rightarrow> 'a list" where
  "py_slice_to xs n = (if 0 \<le> n then take (nat n) xs else take (length xs - nat (- n)) xs)"

section \<open>The outside world\<close>

text \<open>
  The library and service calls are parameters of the model. Each job gets a \<open>world\<close> of
  its own: what the network, the image decoder, the video tools and the inference
  service answer to that job. Byte strings are \<open>string\<close>s.
\<close>

type_synonym bytes = string

datatype http =
    HttpError                \<comment> \<open>\<open>urlopen\<close> or \<open>resp.read()\<close> raises: timeout, HTTP error, transport error\<close>
  | Response string bytes    \<comment> \<open>the final URL after redirects (\<open>resp.url\<close>) and the body\<close>

datatype response =
    ServiceRaises            \<comment> \<open>\<open>generate_content\<close> raises\<close>
  | NoText                   \<comment> \<open>\<open>response.text\<close> is \<open>None\<close>\<close>
  | Text string

datatype 'a field = Absent | Garbled | Present 'a

record video_stream =
  duration :: "rat field"
  nb_frames :: "int field"
  r_frame_rate :: "(int \<times> int) field"

record world =
  urlopen :: "string \<Rightarrow> http"
  image_n_frames :: "bytes \<Rightarrow> py_error + int"
  image_render :: "bytes \<Rightarrow> int \<Rightarrow> py_error + bytes"
  generate_content :: "bytes list \<Rightarrow> nat \<Rightarrow> response"
  path_exists :: "string \<Rightarrow> bool"
  ffprobe :: "string \<Rightarrow> py_error + video_stream option"
  ffmpeg :: "string \<Rightarrow> nat \<Rightarrow> rat \<Rightarrow> bytes option"

text \<open>What the code prints to stderr.\<close>

datatype log_msg =
    SkippingRemoved string
  | DownloadError
  | JsonRetrying
  | JsonGivingUp
  | RawResponse string
  | ApiError
  | FileNotFound string
  | FrameExtractionError string
  | JsonParseError string

section \<open>describe_gifs.py: the workers\<close>

definition NUM_FRAMES :: int where
  "NUM_FRAMES = 5"

definition tombstone :: string where
  "tombstone = ''assets.tumblr.com/images/media_violation/''"

text \<open>
  \<^verbatim>\<open>
    try:
        with urlopen(req, timeout=timeout) as resp:
            if "assets.tumblr.com/images/media_violation/" in resp.url:
                print(f"  Skipping removed GIF: {url}", file=sys.stderr)
                return None
            return resp.read()
    except Exception as e:
        print(f"  Download error: {e}", file=sys.stderr)
        return None
  \<close>
\<close>

definition download_gif :: "world \<Rightarrow> string \<Rightarrow> bytes option \<times> log_msg list" where
  "download_gif w u =
     (case urlopen w u of
        HttpError \<Rightarrow> (None, [DownloadError])
      | Response final body \<Rightarrow>
          if py_contains tombstone final then (None, [SkippingRemoved u])
          else (Some body, []))"

fun render_all :: "(int \<Rightarrow> py_error + bytes) \<Rightarrow> int list \<Rightarrow> py_error + bytes list" where
  "render_all r [] = Inr []"
| "render_all r (i # is) =
     (case r i of
        Inl e \<Rightarrow> Inl e
      | Inr f \<Rightarrow> (case render_all r is of Inl e \<Rightarrow> Inl e | Inr fs \<Rightarrow> Inr (f # fs)))"

text \<open>
  \<open>extract_frames\<close> of describe_gifs.py and \<open>extract_frames_gif\<close> of describe_sources.py:
  open the image, pick the indices, then seek, convert, resize and encode each frame.
  Opening and rendering are PIL's.
\<close>

definition extract_frames_gif :: "world \<Rightarrow> bytes \<Rightarrow> int \<Rightarrow> py_error + bytes list" where
  "extract_frames_gif w gif_data num_frames =
     (case image_n_frames w gif_data of
        Inl e \<Rightarrow> Inl e
      | Inr n_frames \<Rightarrow>
          (case frame_indices n_frames num_frames of
             Inl e \<Rightarrow> Inl e
           | Inr indices \<Rightarrow> render_all (image_render w gif_data) indices))"

text \<open>
  \<^verbatim>\<open>
    text = text.strip()
    if text.startswith("```"):
        lines = text.split("\n")
        text = "\n".join(lines[1:-1])
    return text
  \<close>
\<close>

definition clean_json_text :: "string \<Rightarrow> string" where
  "clean_json_text text0 =
     (let text = py_strip text0
      in if py_startswith text ''```'' then py_join_lines (butlast (tl (py_split_lines text)))
         else text)"

text \<open>
  The retry loop of \<open>describe_gif_from_data\<close>, over the attempts that are left. \<open>Inl\<close> is
  an exception that leaves the loop for the outer handler; \<open>Inr JNull\<close> is the
  \<open>return None\<close> after the loop.
  \<^verbatim>\<open>
    for attempt in range(1 + retries):
        try:
            response = client.models.generate_content(...)
            text = _clean_json_text(response.text)
            return json.loads(text)
        except json.JSONDecodeError as e:
            if attempt < retries:
                print(f"  JSON parse error (retrying): {e}", file=sys.stderr)
            else:
                print(f"  JSON parse error (giving up): {e}", file=sys.stderr)
                print(f"    Raw response: {response.text[:300]}", file=sys.stderr)
    return None
  \<close>
\<close>

fun attempt_loop ::
  "(string \<Rightarrow> json option) \<Rightarrow> (nat \<Rightarrow> response) \<Rightarrow> int \<Rightarrow> int list
     \<Rightarrow> (py_error + json) \<times> log_msg list" where
  "attempt_loop loads call retries [] = (Inr JNull, [])"
| "attempt_loop loads call retries (attempt # rest) =
     (case call (nat attempt) of
        ServiceRaises \<Rightarrow> (Inl OtherError, [])
      | NoText \<Rightarrow> (Inl AttributeError, [])
      | Text t \<Rightarrow>
          (case loads (clean_json_text t) of
             Some j \<Rightarrow> (Inr j, [])
           | None \<Rightarrow>
               (let msgs = (if attempt < retries then [JsonRetrying]
                            else [JsonGivingUp, RawResponse (take 300 t)]);
                    (r, more) = attempt_loop loads call retries rest
                in (r, msgs @ more))))"

definition describe_gif_from_data ::
  "(string \<Rightarrow> json option) \<Rightarrow> world \<Rightarrow> bytes \<Rightarrow> int \<Rightarrow> json \<times> log_msg list" where
  "describe_gif_from_data loads w gif_data retries =
     (case extract_frames_gif w gif_data NUM_FRAMES of
        Inl e \<Rightarrow> (JNull, [ApiError])
      | Inr frames \<Rightarrow>
          (case attempt_loop loads (generate_content w frames) retries (py_range (1 + retries)) of
             (Inl e, msgs) \<Rightarrow> (JNull, msgs @ [ApiError])
           | (Inr j, msgs) \<Rightarrow> (j, msgs)))"

record gif =
  url :: string
  original_description :: string

text \<open>
  What \<open>process_gif\<close> returns: the sentinel \<open>REMOVED\<close>, a dict, or \<open>None\<close>.
  \<^verbatim>\<open>
    gif_data = download_gif(gif["url"])
    if gif_data is None:
        return REMOVED
    descriptions = describe_gif_from_data(client, gif_data, gif["url"])
    if descriptions:
        return {"url": gif["url"],
                "original_description": gif["original_description"],
                **descriptions}
    return None
  \<close>
  \<open>**descriptions\<close> raises TypeError when \<open>descriptions\<close> is truthy and not a dict; nothing
  in \<open>process_gif\<close> catches it.
\<close>

datatype job_result = REMOVED | Described "(string \<times> json) list" | NoResult

definition process_gif ::
  "(string \<Rightarrow> json option) \<Rightarrow> world \<Rightarrow> gif \<Rightarrow> (py_error + job_result) \<times> log_msg list" where
  "process_gif loads w g =
     (case download_gif w (url g) of
        (None, msgs) \<Rightarrow> (Inr REMOVED, msgs)
      | (Some gif_data, msgs) \<Rightarrow>
          (case describe_gif_from_data loads w gif_data 1 of
             (descriptions, msgs') \<Rightarrow>
               (if py_truthy descriptions then
                  (case descriptions of
                     JObj kvs \<Rightarrow>
                       Inr (Described (dict_merge
                              [(''url'', JStr (url g)),
                               (''original_description'', JStr (original_description g))] kvs))
                   | _ \<Rightarrow> Inl TypeError)
                else Inr NoResult,
                msgs @ msgs')))"

section \<open>The output file, completion order\<close>

text \<open>
  The output file is a list of lines, each of them ended by a newline, the last one
  included: both engines write \<open>json.dumps(result) + "\n"\<close> and nothing else, so every
  file they produce has this form. A line is represented by what \<open>json.loads\<close> makes of
  it: it either does not parse or parses to a JSON value. A written record is one line,
  which parses back to \<open>result\<close>. A file that does not exist is \<open>None\<close>.
\<close>

datatype line = Unparsable string | Parsed json

text \<open>
  \<open>as_completed\<close> yields the futures in the order in which the jobs finish, which the
  program does not control. The order is a parameter: the list \<open>ks\<close> picks, one after the
  other, which of the jobs still running finishes next (the \<open>k mod n\<close>-th of the \<open>n\<close>
  remaining); when \<open>ks\<close> is used up the rest finish in submission order. Every \<open>ks\<close> gives
  a permutation of the jobs and every permutation is given by some \<open>ks\<close>.
\<close>

function completion_order :: "nat list \<Rightarrow> 'a list \<Rightarrow> 'a list" where
  "completion_order ks [] = []"
| "completion_order [] (x # xs) = x # xs"
| "completion_order (k # ks) (x # xs) =
     (let i = k mod length (x # xs)
      in (x # xs) ! i # completion_order ks (take i (x # xs) @ drop (Suc i) (x # xs)))"
  by pat_completeness auto
termination
  by (relation "measure (\<lambda>(ks, xs). length xs)") auto

text \<open>The jobs with their position in the submission order.\<close>

definition enumerate_jobs :: "'a list \<Rightarrow> (nat \<times> 'a) list" where
  "enumerate_jobs xs = zip [0..<length xs] xs"

section \<open>describe_gifs.py: the coordinator\<close>

text \<open>
  The resume scan of \<open>main\<close>; nothing catches what \<open>json.loads\<close>, \<open>data["url"]\<close> or
  \<open>set.add\<close> raise.
  \<^verbatim>\<open>
    for line in f:
        data = json.loads(line)
        processed_urls.add(data["url"])
  \<close>
\<close>

fun scan_urls :: "json set \<Rightarrow> line list \<Rightarrow> py_error + json set" where
  "scan_urls processed_urls [] = Inr processed_urls"
| "scan_urls processed_urls (Unparsable s # ls) = Inl JSONDecodeError"
| "scan_urls processed_urls (Parsed data # ls) =
     (case py_getitem data ''url'' of
        Inl e \<Rightarrow> Inl e
      | Inr v \<Rightarrow> if py_hashable v then scan_urls (insert v processed_urls) ls
                else Inl TypeError)"

text \<open>
  The shared state of a run: the lines that have reached the file, the lines written to
  the file object and not flushed yet, and the counters.
\<close>

record sink_state =
  sink :: "line list"
  unflushed :: "line list"
  success :: nat
  failed :: nat

record gif_state = sink_state +
  removed :: nat

text \<open>
  The critical section of \<open>main\<close>, one statement after the other: the list holds the
  state after each statement.
  \<^verbatim>\<open>
    with lock:
        if result is REMOVED:
            removed += 1
        elif result:
            out.write(json.dumps(result) + "\n")
            out.flush()
            success += 1
        else:
            failed += 1
  \<close>
\<close>

fun aggregate_gif :: "job_result \<Rightarrow> gif_state \<Rightarrow> gif_state list" where
  "aggregate_gif REMOVED s = [s\<lparr>removed := removed s + 1\<rparr>]"
| "aggregate_gif (Described d) s =
     (if d \<noteq> [] then
        (let s1 = s\<lparr>unflushed := unflushed s @ [Parsed (JObj d)]\<rparr>;
             s2 = s1\<lparr>sink := sink s1 @ unflushed s1, unflushed := []\<rparr>;
             s3 = s2\<lparr>success := success s2 + 1\<rparr>
         in [s1, s2, s3])
      else [s\<lparr>failed := failed s + 1\<rparr>])"
| "aggregate_gif NoResult s = [s\<lparr>failed := failed s + 1\<rparr>]"

text \<open>
  The loop over the completed futures. \<open>future.result()\<close> raises what the job raised,
  which ends the loop and the run. The result is the list of the states the run goes
  through after \<open>s\<close>, and the exception if there is one.
\<close>

fun consume_gifs :: "(py_error + job_result) list \<Rightarrow> gif_state \<Rightarrow> gif_state list \<times> py_error option" where
  "consume_gifs [] s = ([], None)"
| "consume_gifs (Inl e # rs) s = ([], Some e)"
| "consume_gifs (Inr r # rs) s =
     (let tr = aggregate_gif r s; (tr', err) = consume_gifs rs (last tr)
      in (tr @ tr', err))"

text \<open>
  What a run leaves behind: the exception that ended it (if any), the jobs that were
  submitted, the states the shared state went through from the opening of the output
  on (empty when the output was never opened), and the output file afterwards.
\<close>

record ('j, 's) outcome =
  raised :: "py_error option"
  scheduled :: "'j list"
  states :: "'s list"
  out_file :: "line list option"

text \<open>
  \<open>main\<close> of describe_gifs.py, from the resume scan on. \<open>worlds k\<close> is the world of the
  job submitted at position \<open>k\<close>, \<open>ks\<close> the completion order.
  \<^verbatim>\<open>
    processed_urls = set()
    if args.resume and Path(args.output).exists():
        ... scan ...
    to_process = [g for g in gifs if g["url"] not in processed_urls]
    if not to_process:
        print("Nothing to do!")
        return
    ...
    output_mode = "a" if args.resume else "w"
    with open(args.output, output_mode) as out:
        ... submit, consume ...
  \<close>
  A Python \<open>str\<close> is equal to no value of another type, so \<open>g["url"] in processed_urls\<close>
  is membership of \<open>JStr (url g)\<close>.
\<close>

definition gifs_main ::
  "(string \<Rightarrow> json option) \<Rightarrow> (nat \<Rightarrow> world) \<Rightarrow> nat list \<Rightarrow> gif list \<Rightarrow> bool
     \<Rightarrow> line list option \<Rightarrow> (gif, gif_state) outcome" where
  "gifs_main loads worlds ks gifs resume existing =
     (case (case existing of
              Some ls \<Rightarrow> if resume then scan_urls {} ls else Inr {}
            | None \<Rightarrow> Inr {}) of
        Inl e \<Rightarrow> \<lparr>raised = Some e, scheduled = [], states = [], out_file = existing\<rparr>
      | Inr processed_urls \<Rightarrow>
          (let to_process = filter (\<lambda>g. JStr (url g) \<notin> processed_urls) gifs
           in if to_process = [] then
                \<lparr>raised = None, scheduled = [], states = [], out_file = existing\<rparr>
              else
                (let opened = (if resume then (case existing of Some ls \<Rightarrow> ls | None \<Rightarrow> [])
                               else []);
                     s0 = \<lparr>sink = opened, unflushed = [], success = 0, failed = 0, removed = 0\<rparr>;
                     results = map (\<lambda>(k, g). fst (process_gif loads (worlds k) g))
                                 (enumerate_jobs to_process);
                     (tr, err) = consume_gifs (completion_order ks results) s0;
                     s_end = last (s0 # tr)
                 in \<lparr>raised = err, scheduled = to_process, states = s0 # tr,
                     out_file = Some (sink s_end @ unflushed s_end)\<rparr>)))"

text \<open>The identity of an output record of describe_gifs.py: its \<open>"url"\<close>.\<close>

fun line_key :: "string \<Rightarrow> line \<Rightarrow> json option" where
  "line_key k (Parsed (JObj kvs)) = map_of kvs k"
| "line_key k _ = None"

definition identities :: "string \<Rightarrow> line list option \<Rightarrow> json list" where
  "identities k f = (case f of None \<Rightarrow> [] | Some ls \<Rightarrow> List.map_filter (line_key k) ls)"

section \<open>describe_sources.py: the workers\<close>

text \<open>
  An entry of a manifest, with the keys the engine reads. \<open>format\<close>, \<open>page_url\<close> and
  \<open>title\<close> are read with \<open>item.get\<close> and may be missing; \<open>downloaded\<close> and \<open>described\<close>
  are the truth values of \<open>item.get("downloaded")\<close> and \<open>item.get("described")\<close>.
  Identifiers are strings.
\<close>

record item =
  item_id :: string
  local_file :: string
  format :: "string option"
  original_url :: string
  page_url :: "string option"
  title :: "string option"
  downloaded :: bool
  described :: bool

record manifest =
  source :: string
  items :: "item list"

text \<open>
  \<open>items_needing_description\<close> returns the item objects themselves, which
  \<open>process_source\<close> later mutates (\<open>item["described"] = True\<close>); the model returns their
  positions in \<open>manifest["items"]\<close>.
  \<^verbatim>\<open>
    return [item for item in manifest["items"]
            if item.get("downloaded") and (force or not item.get("described"))]
  \<close>
\<close>

definition items_needing_description :: "manifest \<Rightarrow> bool \<Rightarrow> nat list" where
  "items_needing_description m force =
     filter (\<lambda>i. downloaded (items m ! i) \<and> (force \<or> \<not> described (items m ! i)))
       [0..<length (items m)]"

text \<open>
  The duration that \<open>extract_frames_mp4\<close> works with. Times are exact rationals.
  \<^verbatim>\<open>
    duration = float(video_stream.get("duration", 0))
    if duration == 0:
        nb = int(video_stream.get("nb_frames", 0))
        r_frame_rate = video_stream.get("r_frame_rate", "30/1")
        num, den = map(int, r_frame_rate.split("/"))
        if nb > 0 and num > 0:
            duration = nb * den / num
    if duration <= 0:
        # Fallback: just grab the first frame
        duration = 1.0
  \<close>
\<close>

definition mp4_duration :: "video_stream \<Rightarrow> py_error + rat" where
  "mp4_duration vs =
     (case (case duration vs of Garbled \<Rightarrow> Inl ValueError | Absent \<Rightarrow> Inr 0 | Present d \<Rightarrow> Inr d) of
        Inl e \<Rightarrow> Inl e
      | Inr d0 \<Rightarrow>
          (case (if d0 = 0 then
                   (case (case nb_frames vs of Garbled \<Rightarrow> Inl ValueError | Absent \<Rightarrow> Inr 0
                                             | Present n \<Rightarrow> Inr n) of
                      Inl e \<Rightarrow> Inl e
                    | Inr nb \<Rightarrow>
                        (case (case r_frame_rate vs of Garbled \<Rightarrow> Inl ValueError
                                 | Absent \<Rightarrow> Inr (30, 1) | Present r \<Rightarrow> Inr r) of
                           Inl e \<Rightarrow> Inl e
                         | Inr (num, den) \<Rightarrow>
                             Inr (if 0 < nb \<and> 0 < num then of_int (nb * den) / of_int num
                                  else d0)))
                 else Inr d0) of
             Inl e \<Rightarrow> Inl e
           | Inr d1 \<Rightarrow> Inr (if d1 \<le> 0 then 1 else d1)))"

text \<open>
  \<^verbatim>\<open>
    if num_frames == 1:
        timestamps = [0.0]
    else:
        timestamps = [i * duration / (num_frames - 1) for i in range(num_frames)]
        timestamps[-1] = min(timestamps[-1], max(0, duration - 0.01))
  \<close>
  \<open>timestamps[-1]\<close> raises IndexError on the empty list.
\<close>

definition mp4_timestamps :: "rat \<Rightarrow> int \<Rightarrow> py_error + rat list" where
  "mp4_timestamps d num_frames =
     (if num_frames = 1 then Inr [0]
      else (let timestamps = map (\<lambda>i. of_int i * d / of_int (num_frames - 1)) (py_range num_frames)
            in if timestamps = [] then Inl IndexError
               else Inr (butlast timestamps @ [min (last timestamps) (max 0 (d - 1 / 100))])))"

text \<open>
  \<open>extract_frames_mp4\<close>: probe, compute the timestamps, run ffmpeg once per timestamp and
  keep the frames whose output file exists.
  \<^verbatim>\<open>
    for i, ts in enumerate(timestamps):
        ...
        subprocess.run(cmd, capture_output=True)
        if os.path.exists(out_path):
            frames.append(Path(out_path).read_bytes())
    if not frames:
        raise RuntimeError("ffmpeg extracted no frames")
    return frames
  \<close>
\<close>

definition extract_frames_mp4 :: "world \<Rightarrow> string \<Rightarrow> int \<Rightarrow> py_error + bytes list" where
  "extract_frames_mp4 w file_path num_frames =
     (case ffprobe w file_path of
        Inl e \<Rightarrow> Inl e
      | Inr None \<Rightarrow> Inl RuntimeError
      | Inr (Some vs) \<Rightarrow>
          (case mp4_duration vs of
             Inl e \<Rightarrow> Inl e
           | Inr d \<Rightarrow>
               (case mp4_timestamps d num_frames of
                  Inl e \<Rightarrow> Inl e
                | Inr timestamps \<Rightarrow>
                    (let frames = List.map_filter (\<lambda>(i, ts). ffmpeg w file_path i ts)
                                    (enumerate_jobs timestamps)
                     in if frames = [] then Inl RuntimeError else Inr frames))))"

definition extract_frames :: "world \<Rightarrow> string \<Rightarrow> string \<Rightarrow> py_error + bytes list" where
  "extract_frames w file_path fmt =
     (if fmt = ''mp4'' \<or> fmt = ''webm'' then extract_frames_mp4 w file_path NUM_FRAMES
      else extract_frames_gif w file_path NUM_FRAMES)"

text \<open>
  \<open>describe_item\<close>: one call of the service, no loop. The dict is built inside the
  \<open>try\<close>, so the TypeError of \<open>**desc\<close> on a value that is not a dict is caught by
  \<open>except Exception\<close>.
  \<^verbatim>\<open>
    local_path = source_dir / item["local_file"]
    if not local_path.exists(): ... return None
    try:
        frames = extract_frames(local_path, item.get("format", "gif"))
    except Exception as e: ... return None
    try:
        response = client.models.generate_content(...)
        text = response.text.strip()
        if text.startswith("```"):
            lines = text.split("\n")
            text = "\n".join(lines[1:-1])
        desc = json.loads(text)
        return {"id": item["id"], "url": item["original_url"],
                "attribution": item.get("page_url", ""),
                "original_description": item.get("title", ""), **desc}
    except json.JSONDecodeError as e: ... return None
    except Exception as e: ... return None
  \<close>
\<close>

definition describe_item ::
  "(string \<Rightarrow> json option) \<Rightarrow> world \<Rightarrow> string \<Rightarrow> item
     \<Rightarrow> (string \<times> json) list option \<times> log_msg list" where
  "describe_item loads w source_dir it =
     (let local_path = source_dir @ ''/'' @ local_file it
      in if \<not> path_exists w local_path then (None, [FileNotFound local_path])
         else
           (case extract_frames w local_path (case format it of None \<Rightarrow> ''gif'' | Some f \<Rightarrow> f) of
              Inl e \<Rightarrow> (None, [FrameExtractionError (item_id it)])
            | Inr frames \<Rightarrow>
                (case generate_content w frames 0 of
                   ServiceRaises \<Rightarrow> (None, [ApiError])
                 | NoText \<Rightarrow> (None, [ApiError])
                 | Text t \<Rightarrow>
                     (case loads (clean_json_text t) of
                        None \<Rightarrow> (None, [JsonParseError (item_id it)])
                      | Some (JObj desc) \<Rightarrow>
                          (Some (dict_merge
                                   [(''id'', JStr (item_id it)),
                                    (''url'', JStr (original_url it)),
                                    (''attribution'',
                                       JStr (case page_url it of None \<Rightarrow> [] | Some p \<Rightarrow> p)),
                                    (''original_description'',
                                       JStr (case title it of None \<Rightarrow> [] | Some t \<Rightarrow> t))]
                                   desc), [])
                      | Some _ \<Rightarrow> (None, [ApiError])))))"

section \<open>describe_sources.py: the coordinator\<close>

text \<open>
  The resume scan of \<open>process_source\<close>: JSONDecodeError and KeyError are caught and the
  line is passed over; a TypeError (the line is JSON and not a dict, or its id is not
  hashable) is not caught.
  \<^verbatim>\<open>
    for line in f:
        try:
            existing_ids.add(json.loads(line)["id"])
        except (json.JSONDecodeError, KeyError):
            pass
  \<close>
\<close>

fun scan_ids :: "json set \<Rightarrow> line list \<Rightarrow> py_error + json set" where
  "scan_ids existing_ids [] = Inr existing_ids"
| "scan_ids existing_ids (Unparsable s # ls) = scan_ids existing_ids ls"
| "scan_ids existing_ids (Parsed data # ls) =
     (case py_getitem data ''id'' of
        Inl e \<Rightarrow> if e = KeyError then scan_ids existing_ids ls else Inl e
      | Inr v \<Rightarrow> if py_hashable v then scan_ids (insert v existing_ids) ls
                else Inl TypeError)"

record src_state = sink_state +
  catalog :: "item list"

text \<open>
  The critical section of \<open>process_source\<close> for the job of the item at position \<open>i\<close>,
  statement by statement.
  \<^verbatim>\<open>
    with lock:
        if result:
            out.write(json.dumps(result) + "\n")
            out.flush()
            item["described"] = True
            success += 1
        else:
            failed += 1
  \<close>
\<close>

fun aggregate_src :: "nat \<times> (string \<times> json) list option \<Rightarrow> src_state \<Rightarrow> src_state list" where
  "aggregate_src (i, Some d) s =
     (if d \<noteq> [] then
        (let s1 = s\<lparr>unflushed := unflushed s @ [Parsed (JObj d)]\<rparr>;
             s2 = s1\<lparr>sink := sink s1 @ unflushed s1, unflushed := []\<rparr>;
             s3 = s2\<lparr>catalog := (catalog s2)[i := (catalog s2 ! i)\<lparr>described := True\<rparr>]\<rparr>;
             s4 = s3\<lparr>success := success s3 + 1\<rparr>
         in [s1, s2, s3, s4])
      else [s\<lparr>failed := failed s + 1\<rparr>])"
| "aggregate_src (i, None) s = [s\<lparr>failed := failed s + 1\<rparr>]"

fun consume_src :: "(nat \<times> (string \<times> json) list option) list \<Rightarrow> src_state \<Rightarrow> src_state list" where
  "consume_src [] s = []"
| "consume_src (r # rs) s = (let tr = aggregate_src r s in tr @ consume_src rs (last tr))"

datatype open_mode = Append | Truncate

text \<open>
  What \<open>process_source\<close> leaves behind: the outcome as for describe_gifs.py, the mode in
  which the descriptions file was opened (if it was), the manifest that \<open>save_manifest\<close>
  wrote (if it was called) and the count returned.
\<close>

record src_outcome = "(nat, src_state) outcome" +
  opened :: "open_mode option"
  saved :: "manifest option"
  returned :: nat

text \<open>
  \<open>process_source\<close>. \<open>existing\<close> is the descriptions file of the source before the run.
  \<^verbatim>\<open>
    to_process = items_needing_description(manifest, force=force)
    if limit:
        to_process = to_process[:limit]
    if not to_process:
        return 0
    existing_ids = set()
    if descriptions_path.exists() and not force:
        ... scan ...
        to_process = [i for i in to_process if i["id"] not in existing_ids]
    if not to_process:
        return 0
    output_mode = "a" if existing_ids else "w"
    if force:
        output_mode = "w"
    with open(descriptions_path, output_mode) as out:
        ... submit, consume ...
    save_manifest(source_dir, manifest)
    return success
  \<close>
\<close>

definition process_source ::
  "(string \<Rightarrow> json option) \<Rightarrow> (nat \<Rightarrow> world) \<Rightarrow> nat list \<Rightarrow> string \<Rightarrow> manifest
     \<Rightarrow> line list option \<Rightarrow> int \<Rightarrow> bool \<Rightarrow> src_outcome" where
  "process_source loads worlds ks source_dir m existing limit force =
     (let nothing = \<lparr>raised = None, scheduled = [], states = [], out_file = existing,
                     opened = None, saved = None, returned = 0\<rparr>;
          to_process0 = items_needing_description m force;
          to_process1 = (if limit \<noteq> 0 then py_slice_to to_process0 limit else to_process0)
      in if to_process1 = [] then nothing
         else
           (case (case existing of
                    Some ls \<Rightarrow>
                      if \<not> force then
                        (case scan_ids {} ls of
                           Inl e \<Rightarrow> Inl e
                         | Inr existing_ids \<Rightarrow>
                             Inr (existing_ids,
                                  filter (\<lambda>i. JStr (item_id (items m ! i)) \<notin> existing_ids)
                                    to_process1))
                      else Inr ({}, to_process1)
                  | None \<Rightarrow> Inr ({}, to_process1)) of
              Inl e \<Rightarrow> nothing\<lparr>raised := Some e\<rparr>
            | Inr (existing_ids, to_process) \<Rightarrow>
                if to_process = [] then nothing
                else
                  (let output_mode = (if force then Truncate
                                      else if existing_ids \<noteq> {} then Append else Truncate);
                       s0 = \<lparr>sink = (case output_mode of
                                        Append \<Rightarrow> (case existing of Some ls \<Rightarrow> ls | None \<Rightarrow> [])
                                      | Truncate \<Rightarrow> []),
                             unflushed = [], success = 0, failed = 0, catalog = items m\<rparr>;
                       results = map (\<lambda>(k, i). (i, fst (describe_item loads (worlds k) source_dir
                                                          (items m ! i))))
                                   (enumerate_jobs to_process);
                       tr = consume_src (completion_order ks results) s0;
                       s_end = last (s0 # tr)
                   in \<lparr>raised = None, scheduled = to_process, states = s0 # tr,
                       out_file = Some (sink s_end @ unflushed s_end),
                       opened = Some output_mode,
                       saved = Some (m\<lparr>items := catalog s_end\<rparr>),
                       returned = success s_end\<rparr>)))"

section \<open>The lines a run writes\<close>

text \<open>
  The lines that the loop over the completed futures appends to the sink, in the order
  of completion: one per result that is a non-empty dict, up to the first result that
  raises. Used to state what the loops of the two coordinators leave in the file.
\<close>

fun written_gifs :: "(py_error + job_result) list \<Rightarrow> line list" where
  "written_gifs [] = []"
| "written_gifs (Inl e # rs) = []"
| "written_gifs (Inr (Described d) # rs) =
     (if d \<noteq> [] then Parsed (JObj d) # written_gifs rs else written_gifs rs)"
| "written_gifs (Inr r # rs) = written_gifs rs"

fun written_src :: "(nat \<times> (string \<times> json) list option) list \<Rightarrow> line list" where
  "written_src [] = []"
| "written_src ((i, Some d) # rs) =
     (if d \<noteq> [] then Parsed (JObj d) # written_src rs else written_src rs)"
| "written_src ((i, None) # rs) = written_src rs"

section \<open>Names for the intermediate values of the coordinators\<close>

text \<open>
  The local variables of \<open>main\<close> and of \<open>process_source\<close>, as functions of the inputs, for
  use in the statements and proofs below: the lines of a file that may be missing, the
  skip-set recovered from the existing output, the jobs that are submitted, their
  results in completion order, and the shared state when the output has just been
  opened.
\<close>

definition file_lines :: "line list option \<Rightarrow> line list" where
  "file_lines f = (case f of Some ls \<Rightarrow> ls | None \<Rightarrow> [])"

definition gifs_skip_set :: "bool \<Rightarrow> line list option \<Rightarrow> json set" where
  "gifs_skip_set resume existing = (if resume then set (identities ''url'' existing) else {})"

definition gifs_to_process :: "gif list \<Rightarrow> bool \<Rightarrow> line list option \<Rightarrow> gif list" where
  "gifs_to_process gifs resume existing =
     filter (\<lambda>g. JStr (url g) \<notin> gifs_skip_set resume existing) gifs"

definition gifs_results ::
  "(string \<Rightarrow> json option) \<Rightarrow> (nat \<Rightarrow> world) \<Rightarrow> nat list \<Rightarrow> gif list
     \<Rightarrow> (py_error + job_result) list" where
  "gifs_results loads worlds ks to_process =
     completion_order ks
       (map (\<lambda>(k, g). fst (process_gif loads (worlds k) g)) (enumerate_jobs to_process))"

definition gifs_start :: "bool \<Rightarrow> line list option \<Rightarrow> gif_state" where
  "gifs_start resume existing =
     \<lparr>sink = (if resume then file_lines existing else []), unflushed = [],
      success = 0, failed = 0, removed = 0\<rparr>"

definition src_skip_set :: "bool \<Rightarrow> line list option \<Rightarrow> json set" where
  "src_skip_set force existing = (if force then {} else set (identities ''id'' existing))"

definition src_candidates :: "manifest \<Rightarrow> int \<Rightarrow> bool \<Rightarrow> nat list" where
  "src_candidates m limit force =
     (if limit \<noteq> 0 then py_slice_to (items_needing_description m force) limit
      else items_needing_description m force)"

definition src_to_process :: "manifest \<Rightarrow> line list option \<Rightarrow> int \<Rightarrow> bool \<Rightarrow> nat list" where
  "src_to_process m existing limit force =
     filter (\<lambda>i. JStr (item_id (items m ! i)) \<notin> src_skip_set force existing)
       (src_candidates m limit force)"

definition src_results ::
  "(string \<Rightarrow> json option) \<Rightarrow> (nat \<Rightarrow> world) \<Rightarrow> nat list \<Rightarrow> string \<Rightarrow> manifest \<Rightarrow> nat list
     \<Rightarrow> (nat \<times> (string \<times> json) list option) list" where
  "src_results loads worlds ks source_dir m to_process =
     completion_order ks
       (map (\<lambda>(k, i). (i, fst (describe_item loads (worlds k) source_dir (items m ! i))))
          (enumerate_jobs to_process))"

definition src_mode :: "bool \<Rightarrow> line list option \<Rightarrow> open_mode" where
  "src_mode force existing =
     (if force then Truncate else if src_skip_set force existing \<noteq> {} then Append else Truncate)"

definition src_start :: "manifest \<Rightarrow> bool \<Rightarrow> line list option \<Rightarrow> src_state" where
  "src_start m force existing =
     \<lparr>sink = (case src_mode force existing of Append \<Rightarrow> file_lines existing | Truncate \<Rightarrow> []),
      unflushed = [], success = 0, failed = 0, catalog = items m\<rparr>"

section \<open>Example inputs\<close>

text \<open>
  Concrete inputs at which the theorems below are evaluated. \<open>example_loads\<close> stands for
  \<open>json.loads\<close> on the texts of the examples: it parses one object and rejects every
  other text.
\<close>

definition example_loads :: "string \<Rightarrow> json option" where
  "example_loads t =
     (if t = ''{\"mood\": \"funny\"}'' then Some (JObj [(''mood'', JStr ''funny'')]) else None)"

definition example_world :: world where
  "example_world =
     \<lparr>urlopen = (\<lambda>u. Response u ''GIF89a''),
      image_n_frames = (\<lambda>b. Inr 12),
      image_render = (\<lambda>b i. Inr ''PNG''),
      generate_content = (\<lambda>frames n. Text ''{\"mood\": \"funny\"}''),
      path_exists = (\<lambda>p. True),
      ffprobe = (\<lambda>p. Inr None),
      ffmpeg = (\<lambda>p i ts. None)\<rparr>"

text \<open>A service whose first answer is prose and whose later answers are the object.\<close>

definition second_try_world :: world where
  "second_try_world =
     example_world\<lparr>generate_content :=
       \<lambda>frames n. if n = 0 then Text ''I see a cat'' else Text ''{\"mood\": \"funny\"}''\<rparr>"

definition example_item :: "string \<Rightarrow> item" where
  "example_item i =
     \<lparr>item_id = i, local_file = i @ ''.gif'', format = None,
      original_url = ''http://example.org/'' @ i, page_url = None, title = None,
      downloaded = True, described = False\<rparr>"

definition example_gif :: "string \<Rightarrow> gif" where
  "example_gif u = \<lparr>url = u, original_description = ''a cat''\<rparr>"

text \<open>A video stream for which ffprobe reports neither a duration nor a frame count.\<close>

definition stream_no_metadata :: video_stream where
  "stream_no_metadata = \<lparr>duration = Absent, nb_frames = Absent, r_frame_rate = Absent\<rparr>"

text \<open>
  A manifest of five downloaded items, none flagged as described, and a descriptions
  file that already holds records for the first two (as after a run that was
  interrupted before \<open>save_manifest\<close>).
\<close>

definition example_manifest :: manifest where
  "example_manifest =
     \<lparr>source = ''kidmograph'', items = map example_item [''a'', ''b'', ''c'', ''d'', ''e'']\<rparr>"

definition example_output :: "line list" where
  "example_output = [Parsed (JObj [(''id'', JStr ''a'')]), Parsed (JObj [(''id'', JStr ''b'')])]"

text \<open>
  The inference service never answers with an object that carries the key \<open>key\<close>: the
  condition under which \<open>**descriptions\<close> leaves the identity of a record alone.
\<close>

definition keeps_identity :: "(string \<Rightarrow> json option) \<Rightarrow> (nat \<Rightarrow> world) \<Rightarrow> string \<Rightarrow> bool" where
  "keeps_identity loads worlds key =
     (\<forall>k frames n t kvs.
        generate_content (worlds k) frames n = Text t \<longrightarrow>
        loads (clean_json_text t) = Some (JObj kvs) \<longrightarrow> key \<notin> fst ` set kvs)"

text \<open>A world in which the fetch fails and a world in which the local file is missing.\<close>

definition offline_world :: world where
  "offline_world = example_world\<lparr>urlopen := \<lambda>u. HttpError, path_exists := \<lambda>p. False\<rparr>"

definition two_item_manifest :: manifest where
  "two_item_manifest = \<lparr>source = ''kidmograph'', items = map example_item [''a'', ''b'']\<rparr>"

text \<open>The job submitted second is offline, every other job sees \<open>example_world\<close>.\<close>

definition second_job_offline :: "nat \<Rightarrow> world" where
  "second_job_offline k = (if k = 1 then offline_world else example_world)"

section \<open>Properties of the frame sampler\<close>

lemma py_round_of_int: "py_round (of_int z) = z"
  by (simp add: py_round_def)

lemma py_round_mono:
  assumes "x \<le> y"
  shows "py_round x \<le> py_round y"
proof -
  have fm: "\<lfloor>x\<rfloor> \<le> \<lfloor>y\<rfloor>" using assms by (rule floor_mono)
  have lo: "\<And>z. \<lfloor>z\<rfloor> \<le> py_round z" by (simp add: py_round_def Let_def)
  have hi: "\<And>z. py_round z \<le> \<lfloor>z\<rfloor> + 1" by (simp add: py_round_def Let_def)
  show ?thesis
  proof (cases "\<lfloor>x\<rfloor> = \<lfloor>y\<rfloor>")
    case True
    then show ?thesis using assms by (auto simp: py_round_def Let_def)
  next
    case False
    then have "\<lfloor>x\<rfloor> + 1 \<le> \<lfloor>y\<rfloor>" using fm by simp
    then show ?thesis using lo[of y] hi[of x] by linarith
  qed
qed

lemma sorted_map_upto: "(\<And>i j. i \<le> j \<Longrightarrow> f i \<le> f j) \<Longrightarrow> sorted (map f [a..b])"
  by (simp add: sorted_map sorted_wrt_iff_nth_less)

lemma sample_index_mono:
  assumes "2 \<le> K" "1 \<le> F" "i \<le> j"
  shows "sample_index F K i \<le> sample_index F K j"
proof -
  have "i * (F - 1) \<le> j * (F - 1)" using assms by (simp add: mult_right_mono)
  then have "(of_int (i * (F - 1)) :: rat) \<le> of_int (j * (F - 1))" by (simp only: of_int_le_iff)
  moreover have "(0::rat) < of_int (K - 1)" using assms by simp
  ultimately have "(of_int (i * (F - 1)) :: rat) / of_int (K - 1)
                     \<le> of_int (j * (F - 1)) / of_int (K - 1)"
    by (simp only: divide_right_mono less_imp_le)
  then show ?thesis unfolding sample_index_def by (rule py_round_mono)
qed

lemma sample_index_first: "sample_index F K 0 = 0"
  by (simp add: sample_index_def py_round_def)

lemma sample_index_last:
  assumes "2 \<le> K"
  shows "sample_index F K (K - 1) = F - 1"
proof -
  have "(of_int ((K - 1) * (F - 1)) :: rat) / of_int (K - 1) = of_int (F - 1)"
    using assms by simp
  then show ?thesis unfolding sample_index_def by (simp only: py_round_of_int)
qed

lemma frame_indices_sampled:
  assumes "2 \<le> K" "K < F"
  shows "frame_indices F K = Inr (map (sample_index F K) (py_range K))"
  using assms by (simp add: frame_indices_def sample_index_def[abs_def])

lemma py_range_length: "length (py_range n) = nat n"
  by (simp add: py_range_def)

lemma py_range_hd: "1 \<le> n \<Longrightarrow> hd (py_range n) = 0"
  by (simp add: py_range_def upto.simps)

lemma py_range_last: "1 \<le> n \<Longrightarrow> last (py_range n) = n - 1"
  by (simp add: py_range_def upto_rec2)

lemma py_range_nonempty: "1 \<le> n \<Longrightarrow> py_range n \<noteq> []"
  by (simp add: py_range_def)

lemma py_range_eq_sample:
  assumes "2 \<le> K"
  shows "py_range K = map (sample_index K K) (py_range K)"
proof -
  have "sample_index K K i = i" for i
  proof -
    have "(of_int (i * (K - 1)) :: rat) / of_int (K - 1) = of_int i" using assms by simp
    then show ?thesis unfolding sample_index_def by (simp only: py_round_of_int)
  qed
  then show ?thesis by (simp add: map_idI)
qed

text \<open>
  Claim C2, as the code has it. For every frame count \<open>F\<close> and target count \<open>K \<ge> 1\<close>:
  if \<open>F \<le> K\<close> the sampled indices are exactly \<open>0..F-1\<close>; if \<open>F \<ge> K\<close> and \<open>K \<ge> 2\<close> they are
  \<open>[round(i*(F-1)/(K-1)) for i in 0..K-1]\<close> (ties to the even neighbour), a non-decreasing
  list of length exactly \<open>K\<close> whose first element is \<open>0\<close> and whose last is \<open>F-1\<close>.
\<close>

theorem frame_indices_sampling:
  assumes "1 \<le> K"
  shows "(F \<le> K \<longrightarrow> frame_indices F K = Inr [0..F - 1]) \<and>
         (K \<le> F \<and> 2 \<le> K \<longrightarrow>
            (\<exists>xs. frame_indices F K = Inr xs \<and>
                  xs = map (\<lambda>i. py_round (of_int (i * (F - 1)) / of_int (K - 1))) [0..K - 1] \<and>
                  sorted xs \<and> length xs = nat K \<and> hd xs = 0 \<and> last xs = F - 1))"
proof (intro conjI impI)
  assume "F \<le> K"
  then show "frame_indices F K = Inr [0..F - 1]"
    by (simp add: frame_indices_def py_range_def)
next
  assume a: "K \<le> F \<and> 2 \<le> K"
  let ?xs = "map (sample_index F K) (py_range K)"
  have eq: "frame_indices F K = Inr ?xs"
  proof (cases "K = F")
    case True
    then have "frame_indices F K = Inr (py_range K)" by (simp add: frame_indices_def)
    then show ?thesis using py_range_eq_sample[of K] a True by simp
  next
    case False
    then show ?thesis using a frame_indices_sampled[of K F] by simp
  qed
  have ne: "py_range K \<noteq> []" using a by (simp add: py_range_nonempty)
  have s: "sorted ?xs"
    unfolding py_range_def using a by (intro sorted_map_upto sample_index_mono) auto
  have l: "length ?xs = nat K" by (simp add: py_range_length)
  have h: "hd ?xs = 0" using ne a by (simp add: hd_map py_range_hd sample_index_first)
  have t: "last ?xs = F - 1" using ne a by (simp add: last_map py_range_last sample_index_last)
  have f: "?xs = map (\<lambda>i. py_round (of_int (i * (F - 1)) / of_int (K - 1))) [0..K - 1]"
    by (simp add: sample_index_def[abs_def] py_range_def)
  show "\<exists>xs. frame_indices F K = Inr xs \<and>
             xs = map (\<lambda>i. py_round (of_int (i * (F - 1)) / of_int (K - 1))) [0..K - 1] \<and>
             sorted xs \<and> length xs = nat K \<and> hd xs = 0 \<and> last xs = F - 1"
    using eq s l h t f by (intro exI[of _ ?xs]) (simp only: simp_thms)
qed

text \<open>
  The theorem at \<open>F = 3\<close>, \<open>F = 5\<close> and \<open>F = 12\<close> with \<open>K = 5\<close>: the three examples of the
  specification.
\<close>

theorem frame_indices_sampling_witness:
  "(1::int) \<le> 5 \<and> (3::int) \<le> 5 \<and> (5::int) \<le> 12 \<and> (2::int) \<le> 5 \<and>
   frame_indices 3 5 = Inr [0, 1, 2] \<and>
   frame_indices 5 5 = Inr [0, 1, 2, 3, 4] \<and>
   frame_indices 12 5 = Inr [0, 3, 6, 8, 11] \<and>
   (\<exists>xs. frame_indices 12 5 = Inr xs \<and> sorted xs \<and> length xs = 5 \<and> hd xs = 0 \<and> last xs = 11)"
proof -
  have k: "(1::int) \<le> 5" by simp
  have e: "frame_indices 12 5 = Inr [0, 3, 6, 8, 11]" by code_simp
  have r3: "[0..(3::int) - 1] = [0, 1, 2]" and r5: "[0..(5::int) - 1] = [0, 1, 2, 3, 4]"
    by (simp_all add: upto.simps)
  show ?thesis
    using frame_indices_sampling[OF k, of 3] frame_indices_sampling[OF k, of 5]
      frame_indices_sampling[OF k, of 12] e r3 r5
    by simp
qed

text \<open>
  Claim C2 as stated also covers \<open>K = 1\<close> with \<open>F \<ge> K\<close>. With two frames and a target
  count of one the comprehension divides by \<open>num_frames - 1 = 0\<close>: no index list is
  produced at all.
\<close>

theorem frame_indices_single_target_counterexample:
  "(1::int) \<le> 1 \<and> (1::int) \<le> 2 \<and> frame_indices 2 1 = Inl ZeroDivisionError \<and>
   \<not> (\<exists>xs. frame_indices 2 1 = Inr xs \<and> length xs = 1 \<and> hd xs = 0 \<and> last xs = 2 - 1)"
  by (simp add: frame_indices_def py_range_def upto.simps)

section \<open>Lemmas about the completion order and the resume scans\<close>

lemma mset_completion_order: "mset (completion_order ks xs) = mset xs"
proof (induction ks xs rule: completion_order.induct)
  case (3 k ks x xs)
  let ?ys = "x # xs"
  let ?i = "k mod length ?ys"
  let ?rest = "take ?i ?ys @ drop (Suc ?i) ?ys"
  have i: "?i < length ?ys" by simp
  have "mset ?ys = mset (take ?i ?ys @ ?ys ! ?i # drop (Suc ?i) ?ys)"
    using id_take_nth_drop[OF i] by simp
  then have split: "mset ?ys = add_mset (?ys ! ?i) (mset ?rest)"
    by simp
  have "completion_order (k # ks) ?ys = ?ys ! ?i # completion_order ks ?rest"
    by (simp only: completion_order.simps Let_def)
  then have "mset (completion_order (k # ks) ?ys) = add_mset (?ys ! ?i) (mset (completion_order ks ?rest))"
    by (simp only: mset.simps)
  also have "\<dots> = add_mset (?ys ! ?i) (mset ?rest)"
    using 3[OF refl] by (simp only:)
  finally show ?case using split by (simp only:)
qed simp_all

lemma set_completion_order: "set (completion_order ks xs) = set xs"
  using mset_completion_order[of ks xs] by (rule mset_eq_setD)

lemma length_completion_order: "length (completion_order ks xs) = length xs"
  using mset_completion_order[of ks xs] by (rule mset_eq_length)

lemma distinct_completion_order: "distinct (completion_order ks xs) = distinct xs"
  using mset_completion_order[of ks xs] by (rule mset_eq_imp_distinct_iff)

lemma completion_order_map: "completion_order ks (map f xs) = map f (completion_order ks xs)"
proof (induction ks xs rule: completion_order.induct)
  case (3 k ks x xs)
  let ?ys = "x # xs"
  let ?i = "k mod length ?ys"
  have i: "?i < length ?ys" by simp
  have "completion_order (k # ks) (map f ?ys) =
        map f ?ys ! ?i # completion_order ks (take ?i (map f ?ys) @ drop (Suc ?i) (map f ?ys))"
    by (simp add: Let_def)
  also have "\<dots> = f (?ys ! ?i) # completion_order ks (map f (take ?i ?ys @ drop (Suc ?i) ?ys))"
    using i by (simp only: nth_map take_map drop_map map_append)
  also have "\<dots> = map f (completion_order (k # ks) ?ys)"
    using 3 by (simp add: Let_def)
  finally show ?case .
qed simp_all

lemma scan_ids_Inr:
  "scan_ids acc ls = Inr S \<Longrightarrow> S = acc \<union> set (List.map_filter (line_key ''id'') ls)"
proof (induction acc ls rule: scan_ids.induct)
  case (3 acc data ls)
  then show ?case
    by (cases data) (auto simp: List.map_filter_simps split: option.splits if_splits)
qed (simp_all add: List.map_filter_simps)

lemma scan_urls_Inr:
  "scan_urls acc ls = Inr S \<Longrightarrow> S = acc \<union> set (List.map_filter (line_key ''url'') ls)"
proof (induction acc ls rule: scan_urls.induct)
  case (3 acc data ls)
  then show ?case
    by (cases data) (auto simp: List.map_filter_simps split: option.splits if_splits)
qed (simp_all add: List.map_filter_simps)


lemma completion_order_single: "completion_order ks [x] = [x]"
  by (cases ks) simp_all

lemma frame_indices_12_5: "frame_indices 12 NUM_FRAMES = Inr [0, 3, 6, 8, 11]"
  by code_simp

lemmas example_simps =
  example_loads_def example_world_def second_try_world_def example_item_def example_gif_def
  clean_json_text_def py_strip_def py_isspace_def py_startswith_def

section \<open>The shape of a run\<close>

lemma identities_None: "identities k None = []"
  by (simp add: identities_def)

lemma identities_Some: "identities k (Some ls) = List.map_filter (line_key k) ls"
  by (simp add: identities_def)

lemma gifs_main_cases [case_names scan_raised nothing_to_do ran]:
  assumes "\<And>e ls. existing = Some ls \<Longrightarrow> resume \<Longrightarrow> scan_urls {} ls = Inl e \<Longrightarrow>
             gifs_main loads worlds ks gifs resume existing =
               \<lparr>raised = Some e, scheduled = [], states = [], out_file = existing\<rparr> \<Longrightarrow> P"
    and "gifs_to_process gifs resume existing = [] \<Longrightarrow>
         gifs_main loads worlds ks gifs resume existing =
           \<lparr>raised = None, scheduled = [], states = [], out_file = existing\<rparr> \<Longrightarrow> P"
    and "\<And>tp s0 rs s_end. tp = gifs_to_process gifs resume existing \<Longrightarrow> tp \<noteq> [] \<Longrightarrow>
           s0 = gifs_start resume existing \<Longrightarrow>
           rs = gifs_results loads worlds ks tp \<Longrightarrow>
           s_end = last (s0 # fst (consume_gifs rs s0)) \<Longrightarrow>
           gifs_main loads worlds ks gifs resume existing =
             \<lparr>raised = snd (consume_gifs rs s0), scheduled = tp,
              states = s0 # fst (consume_gifs rs s0),
              out_file = Some (sink s_end @ unflushed s_end)\<rparr> \<Longrightarrow> P"
  shows P
proof -
  let ?scan = "case existing of Some ls \<Rightarrow> if resume then scan_urls {} ls else Inr {} | None \<Rightarrow> Inr {}"
  show ?thesis
  proof (cases ?scan)
    case (Inl e)
    then obtain ls where ls: "existing = Some ls" "resume" "scan_urls {} ls = Inl e"
      by (auto split: option.splits if_splits)
    have "gifs_main loads worlds ks gifs resume existing =
            \<lparr>raised = Some e, scheduled = [], states = [], out_file = existing\<rparr>"
      using ls by (simp add: gifs_main_def)
    then show ?thesis using assms(1) ls by blast
  next
    case (Inr S)
    have S: "S = gifs_skip_set resume existing"
      using Inr scan_urls_Inr[of "{}" _ S]
      by (auto simp: gifs_skip_set_def identities_def split: option.splits if_splits)
    show ?thesis
    proof (cases "gifs_to_process gifs resume existing = []")
      case True
      then have "gifs_main loads worlds ks gifs resume existing =
           \<lparr>raised = None, scheduled = [], states = [], out_file = existing\<rparr>"
        using Inr S by (simp add: gifs_main_def gifs_to_process_def)
      then show ?thesis using assms(2) True by blast
    next
      case False
      have op: "(if resume then case existing of None \<Rightarrow> [] | Some ls \<Rightarrow> ls else []) =
                  sink (gifs_start resume existing)"
        by (simp add: gifs_start_def file_lines_def)
      have "gifs_main loads worlds ks gifs resume existing =
             \<lparr>raised = snd (consume_gifs (gifs_results loads worlds ks (gifs_to_process gifs resume existing)) (gifs_start resume existing)),
              scheduled = gifs_to_process gifs resume existing,
              states = gifs_start resume existing # fst (consume_gifs (gifs_results loads worlds ks (gifs_to_process gifs resume existing)) (gifs_start resume existing)),
              out_file = Some (sink (last (gifs_start resume existing # fst (consume_gifs (gifs_results loads worlds ks (gifs_to_process gifs resume existing)) (gifs_start resume existing))))
                  @ unflushed (last (gifs_start resume existing # fst (consume_gifs (gifs_results loads worlds ks (gifs_to_process gifs resume existing)) (gifs_start resume existing)))))\<rparr>"
        using Inr S False
        by (simp add: gifs_main_def gifs_to_process_def gifs_results_def gifs_start_def
            file_lines_def Let_def case_prod_beta)
      then show ?thesis using assms(3)[OF refl False refl refl refl] by blast
    qed
  qed
qed


lemma src_scan_Inr:
  assumes "(case existing of Some ls \<Rightarrow> if \<not> force then scan_ids {} ls else Inr {} | None \<Rightarrow> Inr {}) = Inr S"
  shows "S = src_skip_set force existing"
  using assms scan_ids_Inr[of "{}" _ S]
  by (auto simp: src_skip_set_def identities_def split: option.splits if_splits)

lemma src_scan_pair:
  "(case existing of
      Some ls \<Rightarrow>
        if \<not> force then
          (case scan_ids {} ls of
             Inl e \<Rightarrow> Inl e
           | Inr existing_ids \<Rightarrow> Inr (existing_ids, filter (\<lambda>i. f i \<notin> existing_ids) c))
        else Inr ({}, c)
    | None \<Rightarrow> Inr ({}, c)) =
   (case (case existing of Some ls \<Rightarrow> if \<not> force then scan_ids {} ls else Inr {} | None \<Rightarrow> Inr {}) of
      Inl e \<Rightarrow> Inl e
    | Inr S \<Rightarrow> Inr (S, filter (\<lambda>i. f i \<notin> S) c))"
  by (simp split: option.splits sum.splits)

lemma process_source_unfold:
  "process_source loads worlds ks dir m existing limit force =
     (let nothing = \<lparr>raised = None, scheduled = [], states = [], out_file = existing,
                     opened = None, saved = None, returned = 0\<rparr>
      in if src_candidates m limit force = [] then nothing
         else
           (case (case existing of Some ls \<Rightarrow> if \<not> force then scan_ids {} ls else Inr {}
                                 | None \<Rightarrow> Inr {}) of
              Inl e \<Rightarrow> nothing\<lparr>raised := Some e\<rparr>
            | Inr S \<Rightarrow>
                (let to_process = filter (\<lambda>i. JStr (item_id (items m ! i)) \<notin> S)
                                    (src_candidates m limit force)
                 in if to_process = [] then nothing
                    else
                      (let output_mode = (if force then Truncate
                                          else if S \<noteq> {} then Append else Truncate);
                           s0 = \<lparr>sink = (case output_mode of
                                            Append \<Rightarrow> file_lines existing
                                          | Truncate \<Rightarrow> []),
                                 unflushed = [], success = 0, failed = 0, catalog = items m\<rparr>;
                           tr = consume_src (src_results loads worlds ks dir m to_process) s0;
                           s_end = last (s0 # tr)
                       in \<lparr>raised = None, scheduled = to_process, states = s0 # tr,
                           out_file = Some (sink s_end @ unflushed s_end),
                           opened = Some output_mode,
                           saved = Some (m\<lparr>items := catalog s_end\<rparr>),
                           returned = success s_end\<rparr>))))"
  unfolding process_source_def src_scan_pair src_candidates_def src_results_def file_lines_def
  by (simp add: Let_def split: sum.splits)


lemma process_source_cases [case_names scan_raised nothing_to_do ran]:
  assumes "\<And>e ls. existing = Some ls \<Longrightarrow> \<not> force \<Longrightarrow> src_candidates m limit force \<noteq> [] \<Longrightarrow>
             scan_ids {} ls = Inl e \<Longrightarrow>
             process_source loads worlds ks dir m existing limit force =
               \<lparr>raised = Some e, scheduled = [], states = [], out_file = existing,
                opened = None, saved = None, returned = 0\<rparr> \<Longrightarrow> P"
    and "src_to_process m existing limit force = [] \<Longrightarrow>
         process_source loads worlds ks dir m existing limit force =
           \<lparr>raised = None, scheduled = [], states = [], out_file = existing,
            opened = None, saved = None, returned = 0\<rparr> \<Longrightarrow> P"
    and "\<And>tp s0 rs s_end. tp = src_to_process m existing limit force \<Longrightarrow> tp \<noteq> [] \<Longrightarrow>
           s0 = src_start m force existing \<Longrightarrow>
           rs = src_results loads worlds ks dir m tp \<Longrightarrow>
           s_end = last (s0 # consume_src rs s0) \<Longrightarrow>
           process_source loads worlds ks dir m existing limit force =
             \<lparr>raised = None, scheduled = tp, states = s0 # consume_src rs s0,
              out_file = Some (sink s_end @ unflushed s_end),
              opened = Some (src_mode force existing),
              saved = Some (m\<lparr>items := catalog s_end\<rparr>),
              returned = success s_end\<rparr> \<Longrightarrow> P"
  shows P
proof (cases "src_candidates m limit force = []")
  case True
  then have tp: "src_to_process m existing limit force = []"
    by (simp add: src_to_process_def)
  have "process_source loads worlds ks dir m existing limit force =
           \<lparr>raised = None, scheduled = [], states = [], out_file = existing,
            opened = None, saved = None, returned = 0\<rparr>"
    using True by (simp add: process_source_unfold)
  then show ?thesis using assms(2) tp by blast
next
  case cand: False
  let ?scan = "case existing of Some ls \<Rightarrow> if \<not> force then scan_ids {} ls else Inr {} | None \<Rightarrow> Inr {}"
  show ?thesis
  proof (cases ?scan)
    case (Inl e)
    then obtain ls where ls: "existing = Some ls" "\<not> force" "scan_ids {} ls = Inl e"
      by (auto split: option.splits if_splits)
    have "process_source loads worlds ks dir m existing limit force =
               \<lparr>raised = Some e, scheduled = [], states = [], out_file = existing,
                opened = None, saved = None, returned = 0\<rparr>"
      using ls cand by (simp add: process_source_unfold)
    then show ?thesis using assms(1) ls cand by blast
  next
    case (Inr S)
    have S: "S = src_skip_set force existing"
      using Inr by (rule src_scan_Inr)
    show ?thesis
    proof (cases "src_to_process m existing limit force = []")
      case True
      have "process_source loads worlds ks dir m existing limit force =
           \<lparr>raised = None, scheduled = [], states = [], out_file = existing,
            opened = None, saved = None, returned = 0\<rparr>"
        unfolding process_source_unfold Inr using True cand
        by (simp add: S src_to_process_def)
      then show ?thesis using assms(2) True by blast
    next
      case False
      let ?tp = "src_to_process m existing limit force"
      let ?s0 = "src_start m force existing"
      let ?rs = "src_results loads worlds ks dir m ?tp"
      let ?e = "last (?s0 # consume_src ?rs ?s0)"
      have "process_source loads worlds ks dir m existing limit force =
             \<lparr>raised = None, scheduled = ?tp, states = ?s0 # consume_src ?rs ?s0,
              out_file = Some (sink ?e @ unflushed ?e),
              opened = Some (src_mode force existing),
              saved = Some (m\<lparr>items := catalog ?e\<rparr>),
              returned = success ?e\<rparr>"
        unfolding process_source_unfold Inr using False cand
        by (simp add: S src_to_process_def src_start_def src_mode_def Let_def)
      then show ?thesis using assms(3)[OF refl False refl refl refl] by blast
    qed
  qed
qed


section \<open>Invariants of the aggregation loops\<close>

lemma last_append_cons: "last (s # xs @ ys) = last (last (s # xs) # ys)"
  by (cases ys) (simp_all)

lemma aggregate_gif_nonempty: "aggregate_gif r s \<noteq> []"
  by (cases r) (simp_all add: Let_def)

lemma aggregate_src_nonempty: "aggregate_src r s \<noteq> []"
  by (cases "(r, s)" rule: aggregate_src.cases) (simp_all add: Let_def)






section \<open>Removal and failure in describe_gifs.py\<close>

lemma tombstone_is_removed:
  "py_contains tombstone final \<Longrightarrow> urlopen w (url g) = Response final body \<Longrightarrow>
   process_gif loads w g = (Inr REMOVED, [SkippingRemoved (url g)])"
  by (simp add: process_gif_def download_gif_def)

text \<open>
  Claim C1 says that a fetch which fails for a reason other than the tombstone (timeout,
  HTTP error, transport error) yields a failure and increments the failed counter. In
  the code \<open>download_gif\<close> returns \<open>None\<close> for the tombstone and for every exception alike,
  and \<open>process_gif\<close> turns every \<open>None\<close> into \<open>REMOVED\<close>: in any world whose fetch raises,
  the job's result is \<open>REMOVED\<close> (logged as a download error), and a run over that one item
  ends with \<open>removed = 1\<close> and \<open>failed = 0\<close>.
\<close>

theorem fetch_error_counted_removed:
  "process_gif loads (w\<lparr>urlopen := \<lambda>u. HttpError\<rparr>) g = (Inr REMOVED, [DownloadError]) \<and>
   (let r = gifs_main loads (\<lambda>k. w\<lparr>urlopen := \<lambda>u. HttpError\<rparr>) ks [g] resume None;
        s = last (states r)
    in removed s = 1 \<and> failed s = 0 \<and> success s = 0 \<and> out_file r = Some [])"
  by (simp add: process_gif_def download_gif_def gifs_main_def enumerate_jobs_def
      completion_order_single)

section \<open>Retry on a response that does not parse\<close>

text \<open>
  The retry loop of describe_gifs.py with its default of one retry: a first answer that
  does not parse and a second that does give the parsed value; two answers that do not
  parse give \<open>None\<close>, the log ends with the first 300 characters of the last answer, and
  the job has no result.
\<close>

lemma describe_gif_from_data_second_attempt:
  assumes "extract_frames_gif w gif_data NUM_FRAMES = Inr frames"
    and "generate_content w frames 0 = Text t1" and "loads (clean_json_text t1) = None"
    and "generate_content w frames 1 = Text t2" and "loads (clean_json_text t2) = Some j"
  shows "describe_gif_from_data loads w gif_data 1 = (j, [JsonRetrying])"
  using assms by (simp add: describe_gif_from_data_def py_range_def upto.simps)

lemma describe_gif_from_data_gives_up:
  assumes "extract_frames_gif w gif_data NUM_FRAMES = Inr frames"
    and "generate_content w frames 0 = Text t1" and "loads (clean_json_text t1) = None"
    and "generate_content w frames 1 = Text t2" and "loads (clean_json_text t2) = None"
  shows "describe_gif_from_data loads w gif_data 1
           = (JNull, [JsonRetrying, JsonGivingUp, RawResponse (take 300 t2)])"
    and "urlopen w (url g) = Response final gif_data \<Longrightarrow> \<not> py_contains tombstone final \<Longrightarrow>
         fst (process_gif loads w g) = Inr NoResult"
  using assms
  by (simp_all add: describe_gif_from_data_def py_range_def upto.simps process_gif_def
      download_gif_def)

text \<open>
  Claim C3 says that an unparsable first answer followed by a valid second answer yields
  a success for every item. \<open>describe_gif_from_data\<close> does retry; \<open>describe_item\<close> of
  describe_sources.py calls the service once and gives up: against the same service
  (prose first, the object afterwards) it returns \<open>None\<close>, while
  \<open>describe_gif_from_data\<close> returns the object from the second attempt.
\<close>

theorem describe_item_does_not_retry:
  "describe_item example_loads second_try_world ''kidmograph'' (example_item ''a'') =
     (None, [JsonParseError ''a'']) \<and>
   describe_gif_from_data example_loads second_try_world ''GIF89a'' 1 =
     (JObj [(''mood'', JStr ''funny'')], [JsonRetrying])"
  by (simp add: describe_item_def extract_frames_def describe_gif_from_data_def
      extract_frames_gif_def frame_indices_12_5 py_range_def upto.simps example_simps)

section \<open>Malformed lines in the resume scan\<close>

text \<open>
  The scan of describe_sources.py passes over lines that do not parse and over objects
  without an \<open>"id"\<close>; a line that is JSON and not an object, or an id that is a list,
  raises the TypeError that its handler does not name.
\<close>

lemma scan_ids_not_an_object:
  "scan_ids {} [Parsed (JArr [])] = Inl TypeError"
  "scan_ids {} [Parsed (JObj [(''id'', JArr [])])] = Inl TypeError"
  by simp_all

text \<open>
  Claim C4 says that a malformed line of the existing output is skipped without aborting
  the scan or the run. The scan of describe_sources.py does skip such lines; the scan of
  describe_gifs.py has no handler: with \<open>--resume\<close>, a first line that does not parse
  ends the run with JSONDecodeError, and a first line without \<open>"url"\<close> ends it with
  KeyError, before any job is scheduled.
\<close>

theorem resume_scan_aborts_on_malformed_line:
  "gifs_main loads worlds ks gifs True (Some (Unparsable junk # rest)) =
     \<lparr>raised = Some JSONDecodeError, scheduled = [], states = [],
      out_file = Some (Unparsable junk # rest)\<rparr> \<and>
   gifs_main loads worlds ks gifs True (Some (Parsed (JObj []) # rest)) =
     \<lparr>raised = Some KeyError, scheduled = [], states = [],
      out_file = Some (Parsed (JObj []) # rest)\<rparr> \<and>
   scan_ids {} [Unparsable junk, Parsed (JObj [])] = Inr {}"
  by (simp add: gifs_main_def)

section \<open>The duration fallback of the video sampler\<close>

text \<open>
  Claim C6 says that a source whose duration cannot be resolved falls back to a nominal
  second and takes exactly one frame. The fallback sets \<open>duration = 1.0\<close> and goes on to
  the general case: with the default frame count it computes five timestamps, and where
  ffmpeg delivers a frame at each of them five frames are returned.
\<close>

theorem fallback_samples_five_timestamps:
  "mp4_duration stream_no_metadata = Inr 1 \<and>
   mp4_timestamps 1 NUM_FRAMES = Inr [0, 1 / 4, 1 / 2, 3 / 4, 99 / 100] \<and>
   extract_frames_mp4 (w\<lparr>ffprobe := \<lambda>p. Inr (Some stream_no_metadata),
                         ffmpeg := \<lambda>p i ts. Some ''PNG''\<rparr>) p NUM_FRAMES
     = Inr [''PNG'', ''PNG'', ''PNG'', ''PNG'', ''PNG'']"
  apply (intro conjI)
    apply (simp add: mp4_duration_def stream_no_metadata_def)
   apply (simp add: mp4_timestamps_def NUM_FRAMES_def py_range_def upto.simps)
  apply (simp add: extract_frames_mp4_def mp4_duration_def stream_no_metadata_def
      mp4_timestamps_def NUM_FRAMES_def py_range_def upto.simps enumerate_jobs_def
      List.map_filter_def upt_rec)
  done

section \<open>End state of the aggregation loop of describe_sources.py\<close>

lemma map_update_same: "(map f xs)[i := f (xs ! i)] = map f xs"
proof (cases "i < length xs")
  case True
  then have "f (xs ! i) = map f xs ! i" by simp
  then show ?thesis by (simp only: list_update_id)
next
  case False
  then have "length (map f xs) \<le> i" by simp
  then show ?thesis by (rule list_update_beyond)
qed

lemma aggregate_src_last:
  assumes "unflushed s = []"
  shows "sink (last (aggregate_src r s)) = sink s @ written_src [r] \<and>
         unflushed (last (aggregate_src r s)) = [] \<and>
         success (last (aggregate_src r s)) = success s + length (written_src [r]) \<and>
         success (last (aggregate_src r s)) + failed (last (aggregate_src r s)) = success s + failed s + 1 \<and>
         map item_id (catalog (last (aggregate_src r s))) = map item_id (catalog s)"
  using assms
  by (cases "(r, s)" rule: aggregate_src.cases) (auto simp: Let_def map_update map_update_same)

lemma written_src_Cons: "written_src (r # rs) = written_src [r] @ written_src rs"
  by (cases "(r # rs)" rule: written_src.cases) auto

lemma consume_src_end:
  assumes "unflushed s = []"
  shows "sink (last (s # consume_src rs s)) = sink s @ written_src rs \<and>
         unflushed (last (s # consume_src rs s)) = [] \<and>
         success (last (s # consume_src rs s)) = success s + length (written_src rs) \<and>
         success (last (s # consume_src rs s)) + failed (last (s # consume_src rs s))
           = success s + failed s + length rs \<and>
         map item_id (catalog (last (s # consume_src rs s))) = map item_id (catalog s)"
  using assms
proof (induction rs arbitrary: s)
  case Nil
  then show ?case by simp
next
  case (Cons r rs)
  let ?tr = "aggregate_src r s"
  let ?s1 = "last ?tr"
  have ne: "?tr \<noteq> []" by (rule aggregate_src_nonempty)
  have l: "last (s # consume_src (r # rs) s) = last (?s1 # consume_src rs ?s1)"
    using ne by (simp add: Let_def last_append)
  note a = aggregate_src_last[OF Cons.prems, of r]
  have u: "unflushed ?s1 = []" using a by simp
  note ih = Cons.IH[OF u]
  show ?case
    unfolding l using ih a written_src_Cons[of r rs] by simp
qed

section \<open>Write, flush, then count\<close>





section \<open>The mode in which the manifest engine opens its output\<close>

lemma src_skip_set_nonempty: "(src_skip_set False existing \<noteq> {}) = (identities ''id'' existing \<noteq> [])"
  by (simp add: src_skip_set_def)

text \<open>
  Claim C9. Whenever \<open>process_source\<close> opens the descriptions file: in force mode it
  truncates; with force off it appends if and only if the existing file yielded at least
  one record (a line that is a JSON object with an \<open>"id"\<close>). When it appends, the file
  afterwards is the old content followed by the records of this run; when it truncates,
  the file afterwards holds the records of this run and nothing else, so an existing file
  without a valid record loses its content although force was off.
\<close>

theorem output_mode_rule:
  "\<forall>mode. opened (process_source loads worlds ks dir m existing limit force) = Some mode \<longrightarrow>
     (force \<longrightarrow> mode = Truncate) \<and>
     (\<not> force \<longrightarrow> (mode = Append) = (identities ''id'' existing \<noteq> [])) \<and>
     (mode = Append \<longrightarrow>
        (\<exists>new. out_file (process_source loads worlds ks dir m existing limit force)
                 = Some (file_lines existing @ new) \<and>
               length new = returned (process_source loads worlds ks dir m existing limit force))) \<and>
     (mode = Truncate \<longrightarrow>
        (\<exists>new. out_file (process_source loads worlds ks dir m existing limit force) = Some new \<and>
               length new = returned (process_source loads worlds ks dir m existing limit force)))"
proof (cases rule: process_source_cases[of existing force m limit loads worlds ks dir])
  case (scan_raised e ls)
  then show ?thesis by simp
next
  case nothing_to_do
  then show ?thesis by simp
next
  case (ran tp s0 rs s_end)
  have u: "unflushed s0 = []" using ran(3) by (simp add: src_start_def)
  note e = consume_src_end[OF u, of rs, folded ran(5)]
  have s0: "sink s0 = (case src_mode force existing of Append \<Rightarrow> file_lines existing | Truncate \<Rightarrow> [])"
    "success s0 = 0"
    using ran(3) by (simp_all add: src_start_def)
  have out: "out_file (process_source loads worlds ks dir m existing limit force)
               = Some (sink s0 @ written_src rs)"
    and ret: "returned (process_source loads worlds ks dir m existing limit force)
               = length (written_src rs)"
    using ran(6) e s0 by simp_all
  have md: "opened (process_source loads worlds ks dir m existing limit force)
               = Some (src_mode force existing)"
    using ran(6) by simp
  have m1: "force \<longrightarrow> src_mode force existing = Truncate"
    by (simp add: src_mode_def)
  have m2: "\<not> force \<longrightarrow> (src_mode force existing = Append) = (identities ''id'' existing \<noteq> [])"
    by (simp add: src_mode_def src_skip_set_def)
  show ?thesis
    unfolding md out ret using m1 m2 s0(1) by (auto split: open_mode.splits)
qed

text \<open>
  The theorem at three runs over \<open>example_manifest\<close>: an existing file of one junk line
  (truncated, the junk line is gone), an existing file with two records (appended to),
  and force mode.
\<close>

theorem output_mode_rule_witness:
  "opened (process_source example_loads (\<lambda>k. example_world) [] ''dir'' example_manifest
             (Some [Unparsable ''junk'']) 1 False) = Some Truncate \<and>
   out_file (process_source example_loads (\<lambda>k. example_world) [] ''dir'' example_manifest
             (Some [Unparsable ''junk'']) 1 False)
     = Some [Parsed (JObj [(''id'', JStr ''a''), (''url'', JStr ''http://example.org/a''),
                           (''attribution'', JStr []), (''original_description'', JStr []),
                           (''mood'', JStr ''funny'')])] \<and>
   returned (process_source example_loads (\<lambda>k. example_world) [] ''dir'' example_manifest
             (Some [Unparsable ''junk'']) 1 False) = 1 \<and>
   opened (process_source example_loads (\<lambda>k. example_world) [] ''dir'' example_manifest
             (Some example_output) 3 False) = Some Append \<and>
   out_file (process_source example_loads (\<lambda>k. example_world) [] ''dir'' example_manifest
             (Some example_output) 3 False)
     = Some (example_output @
             [Parsed (JObj [(''id'', JStr ''c''), (''url'', JStr ''http://example.org/c''),
                           (''attribution'', JStr []), (''original_description'', JStr []),
                           (''mood'', JStr ''funny'')])]) \<and>
   opened (process_source example_loads (\<lambda>k. example_world) [] ''dir'' example_manifest
             (Some example_output) 1 True) = Some Truncate"
proof -
  have a: "opened (process_source example_loads (\<lambda>k. example_world) [] ''dir'' example_manifest
             (Some [Unparsable ''junk'']) 1 False) = Some Truncate" by code_simp
  have b: "opened (process_source example_loads (\<lambda>k. example_world) [] ''dir'' example_manifest
             (Some example_output) 3 False) = Some Append" by code_simp
  have c: "opened (process_source example_loads (\<lambda>k. example_world) [] ''dir'' example_manifest
             (Some example_output) 1 True) = Some Truncate" by code_simp
  have d: "returned (process_source example_loads (\<lambda>k. example_world) [] ''dir'' example_manifest
             (Some [Unparsable ''junk'']) 1 False) = 1" by code_simp
  have e: "out_file (process_source example_loads (\<lambda>k. example_world) [] ''dir'' example_manifest
             (Some [Unparsable ''junk'']) 1 False)
     = Some [Parsed (JObj [(''id'', JStr ''a''), (''url'', JStr ''http://example.org/a''),
                           (''attribution'', JStr []), (''original_description'', JStr []),
                           (''mood'', JStr ''funny'')])]" by code_simp
  have f: "out_file (process_source example_loads (\<lambda>k. example_world) [] ''dir'' example_manifest
             (Some example_output) 3 False)
     = Some (example_output @
             [Parsed (JObj [(''id'', JStr ''c''), (''url'', JStr ''http://example.org/c''),
                           (''attribution'', JStr []), (''original_description'', JStr []),
                           (''mood'', JStr ''funny'')])])" by code_simp
  show ?thesis
    using output_mode_rule[of example_loads "\<lambda>k. example_world" "[]" "''dir''" example_manifest
        "Some [Unparsable ''junk'']" 1 False]
      output_mode_rule[of example_loads "\<lambda>k. example_world" "[]" "''dir''" example_manifest
        "Some example_output" 3 False]
      output_mode_rule[of example_loads "\<lambda>k. example_world" "[]" "''dir''" example_manifest
        "Some example_output" 1 True] a b c d e f
    by simp
qed


section \<open>The limit and the resume filter of the manifest engine\<close>

lemma limit_example:
  "raised (process_source example_loads (\<lambda>k. example_world) [] ''dir'' example_manifest
             (Some example_output) 2 False) = None \<and>
   scheduled (process_source example_loads (\<lambda>k. example_world) [] ''dir'' example_manifest
             (Some example_output) 2 False) = [] \<and>
   filter (\<lambda>i. JStr (item_id (items example_manifest ! i)) \<notin> set (identities ''id'' (Some example_output)))
            (items_needing_description example_manifest False) = [2, 3, 4]"
  by code_simp

text \<open>
  Claim C10. With a positive limit \<open>L\<close>, the items that \<open>process_source\<close> schedules are
  those of the first \<open>L\<close> items needing description whose identity is not in the existing
  output: the limit cuts the list before the resume filter is applied. So fewer than \<open>L\<close>
  items, possibly none, are scheduled although more than \<open>L\<close> undescribed items remain:
  there is a run with a limit that schedules nothing while more items than the limit are
  neither flagged nor present in the output.
\<close>

theorem limit_applies_before_resume_filter:
  "(0 < limit \<and> raised (process_source loads worlds ks dir m existing limit force) = None \<longrightarrow>
      scheduled (process_source loads worlds ks dir m existing limit force) =
        filter (\<lambda>i. JStr (item_id (items m ! i))
                       \<notin> (if force then {} else set (identities ''id'' existing)))
          (take (nat limit) (items_needing_description m force))) \<and>
   (\<exists>loads' worlds' ks' dir' m' existing' limit'.
      0 < limit' \<and>
      raised (process_source loads' worlds' ks' dir' m' existing' limit' False) = None \<and>
      scheduled (process_source loads' worlds' ks' dir' m' existing' limit' False) = [] \<and>
      nat limit' < length (filter (\<lambda>i. JStr (item_id (items m' ! i))
                                          \<notin> set (identities ''id'' existing'))
                            (items_needing_description m' False)))"
proof (intro conjI impI)
  assume a: "0 < limit \<and> raised (process_source loads worlds ks dir m existing limit force) = None"
  have tp: "src_to_process m existing limit force =
        filter (\<lambda>i. JStr (item_id (items m ! i))
                       \<notin> (if force then {} else set (identities ''id'' existing)))
          (take (nat limit) (items_needing_description m force))"
    using a by (simp add: src_to_process_def src_candidates_def src_skip_set_def py_slice_to_def)
  show "scheduled (process_source loads worlds ks dir m existing limit force) =
        filter (\<lambda>i. JStr (item_id (items m ! i))
                       \<notin> (if force then {} else set (identities ''id'' existing)))
          (take (nat limit) (items_needing_description m force))"
  proof (cases rule: process_source_cases[of existing force m limit loads worlds ks dir])
    case (scan_raised e ls)
    then show ?thesis using a by simp
  next
    case nothing_to_do
    then show ?thesis using tp by simp
  next
    case (ran tp' s0 rs s_end)
    then show ?thesis using tp by simp
  qed
next
  show "\<exists>loads' worlds' ks' dir' m' existing' limit'.
      0 < limit' \<and>
      raised (process_source loads' worlds' ks' dir' m' existing' limit' False) = None \<and>
      scheduled (process_source loads' worlds' ks' dir' m' existing' limit' False) = [] \<and>
      nat limit' < length (filter (\<lambda>i. JStr (item_id (items m' ! i))
                                          \<notin> set (identities ''id'' existing'))
                            (items_needing_description m' False))"
    apply (rule exI[of _ example_loads], rule exI[of _ "\<lambda>k. example_world"], rule exI[of _ "[]"],
        rule exI[of _ "''dir''"], rule exI[of _ example_manifest],
        rule exI[of _ "Some example_output"], rule exI[of _ 2])
    using limit_example by simp
qed

text \<open>
  The run of the example: limit 2, the first two items are in the output already, three
  more items are undescribed, nothing is scheduled.
\<close>

theorem limit_applies_before_resume_filter_witness:
  "(0::int) < 2 \<and>
   raised (process_source example_loads (\<lambda>k. example_world) [] ''dir'' example_manifest
             (Some example_output) 2 False) = None \<and>
   scheduled (process_source example_loads (\<lambda>k. example_world) [] ''dir'' example_manifest
             (Some example_output) 2 False) = [] \<and>
   take (nat 2) (items_needing_description example_manifest False) = [0, 1] \<and>
   filter (\<lambda>i. JStr (item_id (items example_manifest ! i)) \<notin> set (identities ''id'' (Some example_output)))
            (items_needing_description example_manifest False) = [2, 3, 4]"
proof -
  have t: "take (nat 2) (items_needing_description example_manifest False) = [0, 1]"
    by code_simp
  show ?thesis
    using limit_applies_before_resume_filter[of 2 example_loads "\<lambda>k. example_world" "[]" "''dir''"
        example_manifest "Some example_output" False] limit_example t
    by simp
qed

section \<open>Identities of the records a run writes\<close>

lemma map_of_dict_update:
  "map_of (dict_update kvs k v) k' = (if k' = k then Some v else map_of kvs k')"
  by (induction kvs k v rule: dict_update.induct) auto

lemma dict_update_nonempty: "dict_update kvs k v \<noteq> []"
  by (cases kvs) (auto split: if_splits)

lemma map_of_dict_merge:
  "k \<notin> fst ` set extra \<Longrightarrow> map_of (dict_merge base extra) k = map_of base k"
  by (induction base extra rule: dict_merge.induct) (auto simp: map_of_dict_update)

lemma dict_merge_nonempty: "base \<noteq> [] \<Longrightarrow> dict_merge base extra \<noteq> []"
  by (induction base extra rule: dict_merge.induct) (auto simp: dict_update_nonempty)

lemma attempt_loop_object:
  "attempt_loop loads call retries as = (Inr j, msgs) \<Longrightarrow>
   j = JNull \<or> (\<exists>n t. call n = Text t \<and> loads (clean_json_text t) = Some j)"
proof (induction as arbitrary: msgs)
  case Nil
  then show ?case by simp
next
  case (Cons a as)
  show ?case
  proof (cases "call (nat a)")
    case ServiceRaises
    then show ?thesis using Cons.prems by simp
  next
    case NoText
    then show ?thesis using Cons.prems by simp
  next
    case (Text t)
    show ?thesis
    proof (cases "loads (clean_json_text t)")
      case None
      then obtain more where "attempt_loop loads call retries as = (Inr j, more)"
        using Cons.prems Text by (auto simp: Let_def split: prod.splits)
      then show ?thesis using Cons.IH by blast
    next
      case (Some j')
      then have "j' = j" using Cons.prems Text by simp
      then show ?thesis using Text Some by blast
    qed
  qed
qed

lemma process_gif_described:
  assumes "fst (process_gif loads w g) = Inr (Described d)"
    and "\<And>frames n t kvs. generate_content w frames n = Text t \<Longrightarrow>
           loads (clean_json_text t) = Some (JObj kvs) \<Longrightarrow> ''url'' \<notin> fst ` set kvs"
  shows "map_of d ''url'' = Some (JStr (url g)) \<and> d \<noteq> []"
proof -
  from assms(1) obtain gif_data m1 where dl: "download_gif w (url g) = (Some gif_data, m1)"
    by (auto simp: process_gif_def split: prod.splits option.splits)
  obtain descriptions m2 where dg: "describe_gif_from_data loads w gif_data 1 = (descriptions, m2)"
    by (cases "describe_gif_from_data loads w gif_data 1")
  from assms(1) dl dg obtain kvs where kvs: "descriptions = JObj kvs"
    and d: "d = dict_merge [(''url'', JStr (url g)),
                           (''original_description'', JStr (original_description g))] kvs"
    by (auto simp: process_gif_def split: if_splits json.splits)
  from dg kvs obtain frames msgs where
    al: "attempt_loop loads (generate_content w frames) 1 (py_range (1 + 1)) = (Inr (JObj kvs), msgs)"
    by (auto simp: describe_gif_from_data_def split: sum.splits prod.splits)
  from attempt_loop_object[OF al] obtain n t where
    "generate_content w frames n = Text t" "loads (clean_json_text t) = Some (JObj kvs)"
    by auto
  then have "''url'' \<notin> fst ` set kvs" by (rule assms(2))
  then show ?thesis unfolding d by (simp add: map_of_dict_merge dict_merge_nonempty)
qed

lemma describe_item_described:
  assumes "fst (describe_item loads w dir it) = Some d"
    and "\<And>frames n t kvs. generate_content w frames n = Text t \<Longrightarrow>
           loads (clean_json_text t) = Some (JObj kvs) \<Longrightarrow> ''id'' \<notin> fst ` set kvs"
  shows "map_of d ''id'' = Some (JStr (item_id it)) \<and> d \<noteq> []"
proof -
  from assms(1) obtain frames t kvs where
    g: "generate_content w frames 0 = Text t" and l: "loads (clean_json_text t) = Some (JObj kvs)"
    and d: "d = dict_merge [(''id'', JStr (item_id it)), (''url'', JStr (original_url it)),
                  (''attribution'', JStr (case page_url it of None \<Rightarrow> [] | Some p \<Rightarrow> p)),
                  (''original_description'', JStr (case title it of None \<Rightarrow> [] | Some t \<Rightarrow> t))] kvs"
    by (auto simp: describe_item_def Let_def
        split: if_splits sum.splits response.splits option.splits json.splits)
  have "''id'' \<notin> fst ` set kvs" using g l by (rule assms(2))
  then show ?thesis unfolding d by (simp add: map_of_dict_merge dict_merge_nonempty)
qed


lemma identities_file_lines: "identities k f = List.map_filter (line_key k) (file_lines f)"
  by (simp add: identities_def file_lines_def List.map_filter_simps split: option.splits)

lemma map_filter_append: "List.map_filter f (xs @ ys) = List.map_filter f xs @ List.map_filter f ys"
  by (simp add: List.map_filter_def)

lemma enumerate_jobs_snd: "map snd (enumerate_jobs xs) = xs"
  by (simp add: enumerate_jobs_def)

lemma length_enumerate_jobs: "length (enumerate_jobs xs) = length xs"
  by (simp add: enumerate_jobs_def)

lemma mset_map_completion_order:
  "mset (map f (completion_order ks xs)) = mset (map f xs)"
proof -
  have "mset (map f (completion_order ks xs)) = image_mset f (mset (completion_order ks xs))"
    by simp
  also have "\<dots> = image_mset f (mset xs)"
    by (simp only: mset_completion_order)
  finally show ?thesis by simp
qed

text \<open>The identities of the lines written for a list of jobs, in any order.\<close>

lemma written_gifs_identities:
  assumes "\<And>k frames n t kvs. generate_content (worlds k) frames n = Text t \<Longrightarrow>
             loads (clean_json_text t) = Some (JObj kvs) \<Longrightarrow> ''url'' \<notin> fst ` set kvs"
  shows "\<exists>gs. List.map_filter (line_key ''url'')
                 (written_gifs (map (\<lambda>(k, g). fst (process_gif loads (worlds k) g)) js))
               = map (\<lambda>g. JStr (url g)) gs \<and>
              set gs \<subseteq> snd ` set js \<and>
              (distinct (map (url \<circ> snd) js) \<longrightarrow> distinct (map url gs))"
proof (induction js)
  case Nil
  then show ?case by (simp add: List.map_filter_simps)
next
  case (Cons j js)
  obtain k g where j: "j = (k, g)" by (cases j)
  from Cons.IH obtain gs where gs:
    "List.map_filter (line_key ''url'')
       (written_gifs (map (\<lambda>(k, g). fst (process_gif loads (worlds k) g)) js))
     = map (\<lambda>g. JStr (url g)) gs"
    "set gs \<subseteq> snd ` set js"
    "distinct (map (url \<circ> snd) js) \<longrightarrow> distinct (map url gs)"
    by blast
  show ?case
  proof (cases "fst (process_gif loads (worlds k) g)")
    case (Inl e)
    then show ?thesis using j by (intro exI[of _ "[]"]) (simp add: List.map_filter_simps)
  next
    case (Inr r)
    show ?thesis
    proof (cases r)
      case REMOVED
      then show ?thesis using gs j Inr by (intro exI[of _ gs]) (auto simp: o_def)
    next
      case NoResult
      then show ?thesis using gs j Inr by (intro exI[of _ gs]) (auto simp: o_def)
    next
      case (Described d)
      have d: "map_of d ''url'' = Some (JStr (url g))" "d \<noteq> []"
        using process_gif_described[of loads "worlds k" g d] Inr Described assms by auto
      have "g \<notin> set gs" if "distinct (map (url \<circ> snd) (j # js))"
      proof
        assume "g \<in> set gs"
        then have "g \<in> snd ` set js" using gs(2) by blast
        then have "url g \<in> (url \<circ> snd) ` set js" by force
        then show False using that j by simp
      qed
      moreover have "url g \<notin> url ` set gs" if "distinct (map (url \<circ> snd) (j # js))"
      proof
        assume "url g \<in> url ` set gs"
        then have "url g \<in> (url \<circ> snd) ` set js" using gs(2) by force
        then show False using that j by simp
      qed
      ultimately show ?thesis
        using gs j Inr Described d
        by (intro exI[of _ "g # gs"]) (auto simp: List.map_filter_simps o_def)
    qed
  qed
qed

section \<open>One run with resume\<close>

lemma aggregate_gif_last:
  assumes "unflushed s = []"
  shows "sink (last (aggregate_gif r s)) = sink s @ written_gifs [Inr r] \<and>
         unflushed (last (aggregate_gif r s)) = []"
  using assms by (cases r) (auto simp: Let_def)

lemma written_gifs_Cons: "written_gifs (Inr r # rs) = written_gifs [Inr r] @ written_gifs rs"
  by (cases r) auto

lemma consume_gifs_end:
  assumes "unflushed s = []"
  shows "sink (last (s # fst (consume_gifs rs s))) = sink s @ written_gifs rs \<and>
         unflushed (last (s # fst (consume_gifs rs s))) = []"
  using assms
proof (induction rs arbitrary: s)
  case Nil
  then show ?case by simp
next
  case (Cons x rs)
  show ?case
  proof (cases x)
    case (Inl e)
    then show ?thesis using Cons.prems by simp
  next
    case (Inr r)
    let ?tr = "aggregate_gif r s"
    let ?s1 = "last ?tr"
    have ne: "?tr \<noteq> []" by (rule aggregate_gif_nonempty)
    have l: "last (s # fst (consume_gifs (x # rs) s)) = last (?s1 # fst (consume_gifs rs ?s1))"
      using ne Inr by (simp add: Let_def case_prod_beta last_append)
    note a = aggregate_gif_last[OF Cons.prems, of r]
    have u: "unflushed ?s1 = []" using a by simp
    note ih = Cons.IH[OF u]
    show ?thesis
      unfolding l using ih a written_gifs_Cons[of r rs] Inr by simp
  qed
qed

lemma aggregate_gif_count:
  "s' \<in> set (aggregate_gif r s) \<Longrightarrow>
   success s' + failed s' + removed s' \<le> success s + failed s + removed s + 1"
  by (cases r) (auto simp: Let_def split: if_splits)

lemma aggregate_src_count:
  "s' \<in> set (aggregate_src r s) \<Longrightarrow> success s' + failed s' \<le> success s + failed s + 1"
  by (cases "(r, s)" rule: aggregate_src.cases) (auto simp: Let_def split: if_splits)

lemma consume_gifs_count:
  "s' \<in> set (fst (consume_gifs rs s)) \<Longrightarrow>
   success s' + failed s' + removed s' \<le> success s + failed s + removed s + length rs"
proof (induction rs s rule: consume_gifs.induct)
  case (3 r rs s)
  let ?tr = "aggregate_gif r s"
  have ne: "?tr \<noteq> []" by (rule aggregate_gif_nonempty)
  have l: "success (last ?tr) + failed (last ?tr) + removed (last ?tr)
             \<le> success s + failed s + removed s + 1"
    using aggregate_gif_count[of "last ?tr" r s] ne by simp
  from "3.prems" have "s' \<in> set ?tr \<or> s' \<in> set (fst (consume_gifs rs (last ?tr)))"
    by (auto simp: Let_def split: prod.splits)
  then show ?case
  proof
    assume "s' \<in> set ?tr"
    then show ?thesis using aggregate_gif_count[of s' r s] by simp
  next
    assume "s' \<in> set (fst (consume_gifs rs (last ?tr)))"
    then show ?thesis using "3.IH"[OF refl] l by simp
  qed
qed simp_all

lemma consume_src_count:
  "s' \<in> set (consume_src rs s) \<Longrightarrow>
   success s' + failed s' \<le> success s + failed s + length rs"
proof (induction rs s rule: consume_src.induct)
  case (2 r rs s)
  let ?tr = "aggregate_src r s"
  have ne: "?tr \<noteq> []" by (rule aggregate_src_nonempty)
  have l: "success (last ?tr) + failed (last ?tr) \<le> success s + failed s + 1"
    using aggregate_src_count[of "last ?tr" r s] ne by simp
  from "2.prems" have "s' \<in> set ?tr \<or> s' \<in> set (consume_src rs (last ?tr))"
    by (auto simp: Let_def)
  then show ?case
  proof
    assume "s' \<in> set ?tr"
    then show ?thesis using aggregate_src_count[of s' r s] by simp
  next
    assume "s' \<in> set (consume_src rs (last ?tr))"
    then show ?thesis using "2.IH"[OF refl] l by simp
  qed
qed simp_all

lemma length_gifs_results: "length (gifs_results loads worlds ks tp) = length tp"
  by (simp add: gifs_results_def length_completion_order length_enumerate_jobs)

lemma length_src_results: "length (src_results loads worlds ks dir m tp) = length tp"
  by (simp add: src_results_def length_completion_order length_enumerate_jobs)

lemma gifs_resume_run:
  assumes keeps: "keeps_identity loads worlds ''url''"
  shows "(\<forall>g \<in> set (scheduled (gifs_main loads worlds ks gifs True existing)).
            JStr (url g) \<notin> set (identities ''url'' existing)) \<and>
         (\<forall>s \<in> set (states (gifs_main loads worlds ks gifs True existing)).
            success s + failed s + removed s
              \<le> length (scheduled (gifs_main loads worlds ks gifs True existing))) \<and>
         (\<exists>gs. identities ''url'' (out_file (gifs_main loads worlds ks gifs True existing))
                 = identities ''url'' existing @ map (\<lambda>g. JStr (url g)) gs \<and>
               set gs \<subseteq> set (scheduled (gifs_main loads worlds ks gifs True existing)) \<and>
               (distinct (map url gifs) \<longrightarrow> distinct (map url gs)))"
proof -
  have no_key: "\<And>k frames n t kvs. generate_content (worlds k) frames n = Text t \<Longrightarrow>
             loads (clean_json_text t) = Some (JObj kvs) \<Longrightarrow> ''url'' \<notin> fst ` set kvs"
    using keeps unfolding keeps_identity_def by blast
  show ?thesis
  proof (cases rule: gifs_main_cases[of existing True loads worlds ks gifs])
    case (scan_raised e ls)
    then show ?thesis by (auto intro: exI[of _ "[]"])
  next
    case nothing_to_do
    then show ?thesis by (auto intro: exI[of _ "[]"])
  next
    case (ran tp s0 rs s_end)
    let ?r = "gifs_main loads worlds ks gifs True existing"
    let ?res = "\<lambda>(k, g). fst (process_gif loads (worlds k) g)"
    let ?js = "completion_order ks (enumerate_jobs tp)"
    have sched: "scheduled ?r = tp" and st: "states ?r = s0 # fst (consume_gifs rs s0)"
      and out: "out_file ?r = Some (sink s_end @ unflushed s_end)"
      using ran(6) by simp_all
    have skip: "\<forall>g \<in> set tp. JStr (url g) \<notin> set (identities ''url'' existing)"
      using ran(1) by (simp add: gifs_to_process_def gifs_skip_set_def)
    have s0: "unflushed s0 = []" "sink s0 = file_lines existing"
      "success s0 + failed s0 + removed s0 = 0"
      using ran(3) by (simp_all add: gifs_start_def)
    have cnt: "\<forall>s \<in> set (states ?r). success s + failed s + removed s \<le> length tp"
    proof
      fix s assume "s \<in> set (states ?r)"
      then have "s = s0 \<or> s \<in> set (fst (consume_gifs rs s0))" using st by simp
      then show "success s + failed s + removed s \<le> length tp"
        using s0(3) consume_gifs_count[of s rs s0] ran(4) length_gifs_results[of loads worlds ks tp]
        by auto
    qed
    have rs: "rs = map ?res ?js"
      using ran(4) by (simp add: gifs_results_def completion_order_map)
    have "\<exists>gs. List.map_filter (line_key ''url'') (written_gifs (map ?res ?js))
                 = map (\<lambda>g. JStr (url g)) gs \<and>
               set gs \<subseteq> snd ` set ?js \<and>
               (distinct (map (url \<circ> snd) ?js) \<longrightarrow> distinct (map url gs))"
      by (rule written_gifs_identities) (rule no_key)
    then obtain gs where gs:
      "List.map_filter (line_key ''url'') (written_gifs (map ?res ?js)) = map (\<lambda>g. JStr (url g)) gs"
      "set gs \<subseteq> snd ` set ?js"
      "distinct (map (url \<circ> snd) ?js) \<longrightarrow> distinct (map url gs)"
      by blast
    have set_js: "snd ` set ?js = set tp"
    proof -
      have "snd ` set ?js = set (map snd (enumerate_jobs tp))"
        by (simp add: set_completion_order)
      then show ?thesis by (simp only: enumerate_jobs_snd)
    qed
    have dist_js: "distinct (map (url \<circ> snd) ?js)" if "distinct (map url gifs)"
    proof -
      have "distinct (map url tp)"
        using that ran(1) by (simp add: gifs_to_process_def distinct_map_filter)
      moreover have "map (url \<circ> snd) (enumerate_jobs tp) = map url tp"
        using enumerate_jobs_snd[of tp] by (simp flip: map_map)
      ultimately have "distinct (map (url \<circ> snd) (enumerate_jobs tp))" by simp
      then show ?thesis
        using mset_map_completion_order[of "url \<circ> snd" ks "enumerate_jobs tp"]
          mset_eq_imp_distinct_iff by blast
    qed
    have e: "sink s_end = file_lines existing @ written_gifs rs" "unflushed s_end = []"
      using consume_gifs_end[OF s0(1), of rs] ran(5) s0(2) by simp_all
    have ids: "identities ''url'' (out_file ?r)
                 = identities ''url'' existing @ map (\<lambda>g. JStr (url g)) gs"
      unfolding out e identities_file_lines
      using gs(1) rs by (simp add: file_lines_def map_filter_append)
    show ?thesis
      unfolding sched using skip cnt ids gs(2) gs(3) set_js dist_js sched
      by (intro conjI exI[of _ gs]) auto
  qed
qed

lemma py_slice_to_take: "\<exists>k. py_slice_to xs n = take k xs"
  by (auto simp: py_slice_to_def)

lemma src_candidates_props:
  "distinct (src_candidates m limit force) \<and>
   (\<forall>i \<in> set (src_candidates m limit force). i < length (items m))"
proof -
  let ?xs = "items_needing_description m force"
  have d: "distinct ?xs" and b: "\<forall>i \<in> set ?xs. i < length (items m)"
    by (simp_all add: items_needing_description_def)
  obtain k where k: "py_slice_to ?xs limit = take k ?xs"
    using py_slice_to_take by blast
  have "distinct (take k ?xs)" using d by simp
  moreover have "\<forall>i \<in> set (take k ?xs). i < length (items m)"
    using b by (meson in_set_takeD)
  ultimately show ?thesis using d b k by (simp add: src_candidates_def)
qed

lemma src_to_process_props:
  "distinct (src_to_process m existing limit force) \<and>
   (\<forall>i \<in> set (src_to_process m existing limit force).
      i < length (items m) \<and> JStr (item_id (items m ! i)) \<notin> src_skip_set force existing)"
  using src_candidates_props[of m limit force] by (simp add: src_to_process_def)

lemma distinct_ids_at:
  assumes "distinct (map item_id its)" "distinct xs" "\<forall>i \<in> set xs. i < length its"
  shows "distinct (map (\<lambda>i. item_id (its ! i)) xs)"
proof -
  have "inj_on (\<lambda>i. item_id (its ! i)) (set xs)"
  proof (rule inj_onI)
    fix i j assume i: "i \<in> set xs" and j: "j \<in> set xs"
      and eq: "item_id (its ! i) = item_id (its ! j)"
    have "i < length its" "j < length its" using assms(3) i j by auto
    then have lt: "i < length (map item_id its)" "j < length (map item_id its)"
      and nth: "map item_id its ! i = map item_id its ! j"
      using eq by simp_all
    show "i = j"
      using nth_eq_iff_index_eq[OF assms(1) lt] nth by blast
  qed
  then show ?thesis using assms(2) by (simp add: distinct_map)
qed

lemma written_src_identities:
  assumes "\<And>k frames n t kvs. generate_content (worlds k) frames n = Text t \<Longrightarrow>
             loads (clean_json_text t) = Some (JObj kvs) \<Longrightarrow> ''id'' \<notin> fst ` set kvs"
  shows "\<exists>is. List.map_filter (line_key ''id'')
                 (written_src (map (\<lambda>(k, i). (i, fst (describe_item loads (worlds k) dir (its ! i)))) js))
               = map (\<lambda>i. JStr (item_id (its ! i))) is \<and>
              set is \<subseteq> snd ` set js \<and>
              (distinct (map (\<lambda>j. item_id (its ! snd j)) js)
                 \<longrightarrow> distinct (map (\<lambda>i. item_id (its ! i)) is))"
proof (induction js)
  case Nil
  then show ?case by (simp add: List.map_filter_simps)
next
  case (Cons j js)
  obtain k i where j: "j = (k, i)" by (cases j)
  from Cons.IH obtain "is" where is':
    "List.map_filter (line_key ''id'')
       (written_src (map (\<lambda>(k, i). (i, fst (describe_item loads (worlds k) dir (its ! i)))) js))
     = map (\<lambda>i. JStr (item_id (its ! i))) is"
    "set is \<subseteq> snd ` set js"
    "distinct (map (\<lambda>j. item_id (its ! snd j)) js) \<longrightarrow> distinct (map (\<lambda>i. item_id (its ! i)) is)"
    by blast
  show ?case
  proof (cases "fst (describe_item loads (worlds k) dir (its ! i))")
    case None
    then show ?thesis using is' j by (intro exI[of _ "is"]) auto
  next
    case (Some d)
    have d: "map_of d ''id'' = Some (JStr (item_id (its ! i)))" "d \<noteq> []"
      using describe_item_described[of loads "worlds k" dir "its ! i" d] Some assms by auto
    have "item_id (its ! i) \<notin> (\<lambda>i. item_id (its ! i)) ` set is"
      if "distinct (map (\<lambda>j. item_id (its ! snd j)) (j # js))"
    proof
      assume "item_id (its ! i) \<in> (\<lambda>i. item_id (its ! i)) ` set is"
      then have "item_id (its ! i) \<in> (\<lambda>j. item_id (its ! snd j)) ` set js"
        using is'(2) by force
      then show False using that j by simp
    qed
    then show ?thesis
      using is' j Some d
      by (intro exI[of _ "i # is"]) (auto simp: List.map_filter_simps)
  qed
qed


lemma src_resume_run:
  assumes keeps: "keeps_identity loads worlds ''id''"
  shows "(\<forall>i \<in> set (scheduled (process_source loads worlds ks dir m existing limit False)).
            JStr (item_id (items m ! i)) \<notin> set (identities ''id'' existing)) \<and>
         (\<forall>s \<in> set (states (process_source loads worlds ks dir m existing limit False)).
            success s + failed s
              \<le> length (scheduled (process_source loads worlds ks dir m existing limit False))) \<and>
         (\<exists>is. identities ''id'' (out_file (process_source loads worlds ks dir m existing limit False))
                 = identities ''id'' existing @ map (\<lambda>i. JStr (item_id (items m ! i))) is \<and>
               set is \<subseteq> set (scheduled (process_source loads worlds ks dir m existing limit False)) \<and>
               (distinct (map item_id (items m))
                  \<longrightarrow> distinct (map (\<lambda>i. item_id (items m ! i)) is))) \<and>
         (\<forall>m'. saved (process_source loads worlds ks dir m existing limit False) = Some m'
                \<longrightarrow> map item_id (items m') = map item_id (items m))"
proof -
  have no_key: "\<And>k frames n t kvs. generate_content (worlds k) frames n = Text t \<Longrightarrow>
             loads (clean_json_text t) = Some (JObj kvs) \<Longrightarrow> ''id'' \<notin> fst ` set kvs"
    using keeps unfolding keeps_identity_def by blast
  show ?thesis
  proof (cases rule: process_source_cases[of existing False m limit loads worlds ks dir])
    case (scan_raised e ls)
    then show ?thesis by (auto intro: exI[of _ "[]"])
  next
    case nothing_to_do
    then show ?thesis by (auto intro: exI[of _ "[]"])
  next
    case (ran tp s0 rs s_end)
    let ?q = "process_source loads worlds ks dir m existing limit False"
    let ?res = "\<lambda>(k, i). (i, fst (describe_item loads (worlds k) dir (items m ! i)))"
    let ?js = "completion_order ks (enumerate_jobs tp)"
    let ?f = "\<lambda>i. item_id (items m ! i)"
    have sched: "scheduled ?q = tp" and st: "states ?q = s0 # consume_src rs s0"
      and out: "out_file ?q = Some (sink s_end @ unflushed s_end)"
      and sv: "saved ?q = Some (m\<lparr>items := catalog s_end\<rparr>)"
      using ran(6) by simp_all
    note tpp = src_to_process_props[of m existing limit False, folded ran(1)]
    have skip: "\<forall>i \<in> set tp. JStr (item_id (items m ! i)) \<notin> set (identities ''id'' existing)"
      using tpp by (simp add: src_skip_set_def)
    have s0: "unflushed s0 = []" "success s0 + failed s0 = 0" "catalog s0 = items m"
      using ran(3) by (simp_all add: src_start_def)
    have sink0: "List.map_filter (line_key ''id'') (sink s0) = identities ''id'' existing"
    proof (cases "src_mode False existing")
      case Append
      then show ?thesis using ran(3) by (simp add: src_start_def identities_file_lines)
    next
      case Truncate
      then have "identities ''id'' existing = []"
        by (simp add: src_mode_def src_skip_set_def split: if_splits)
      then show ?thesis using ran(3) Truncate by (simp add: src_start_def List.map_filter_simps)
    qed
    have cnt: "\<forall>s \<in> set (states ?q). success s + failed s \<le> length tp"
    proof
      fix s assume "s \<in> set (states ?q)"
      then have "s = s0 \<or> s \<in> set (consume_src rs s0)" using st by simp
      then show "success s + failed s \<le> length tp"
        using s0(2) consume_src_count[of s rs s0] ran(4)
          length_src_results[of loads worlds ks dir m tp]
        by auto
    qed
    have rs: "rs = map ?res ?js"
      using ran(4) by (simp add: src_results_def completion_order_map)
    have "\<exists>is. List.map_filter (line_key ''id'') (written_src (map ?res ?js))
                 = map (\<lambda>i. JStr (item_id (items m ! i))) is \<and>
               set is \<subseteq> snd ` set ?js \<and>
               (distinct (map (\<lambda>j. item_id (items m ! snd j)) ?js)
                  \<longrightarrow> distinct (map ?f is))"
      by (rule written_src_identities) (rule no_key)
    then obtain "is" where is':
      "List.map_filter (line_key ''id'') (written_src (map ?res ?js))
         = map (\<lambda>i. JStr (item_id (items m ! i))) is"
      "set is \<subseteq> snd ` set ?js"
      "distinct (map (\<lambda>j. item_id (items m ! snd j)) ?js) \<longrightarrow> distinct (map ?f is)"
      by blast
    have set_js: "snd ` set ?js = set tp"
    proof -
      have "snd ` set ?js = set (map snd (enumerate_jobs tp))"
        by (simp add: set_completion_order)
      then show ?thesis by (simp only: enumerate_jobs_snd)
    qed
    have dist_js: "distinct (map (\<lambda>j. item_id (items m ! snd j)) ?js)"
      if "distinct (map item_id (items m))"
    proof -
      have "distinct (map ?f tp)"
        using distinct_ids_at[OF that, of tp] tpp by blast
      moreover have "map (\<lambda>j. item_id (items m ! snd j)) (enumerate_jobs tp)
                       = map ?f (map snd (enumerate_jobs tp))"
        by (simp add: o_def)
      then have "map (\<lambda>j. item_id (items m ! snd j)) (enumerate_jobs tp) = map ?f tp"
        by (simp only: enumerate_jobs_snd)
      ultimately have "distinct (map (\<lambda>j. item_id (items m ! snd j)) (enumerate_jobs tp))" by simp
      then show ?thesis
        using mset_map_completion_order[of "\<lambda>j. item_id (items m ! snd j)" ks "enumerate_jobs tp"]
          mset_eq_imp_distinct_iff by blast
    qed
    note e = consume_src_end[OF s0(1), of rs, folded ran(5)]
    have "identities ''id'' (out_file ?q)
            = List.map_filter (line_key ''id'') (sink s0 @ written_src rs)"
      using e by (simp add: out identities_def)
    also have "\<dots> = List.map_filter (line_key ''id'') (sink s0)
                       @ List.map_filter (line_key ''id'') (written_src rs)"
      by (rule map_filter_append)
    finally have ids: "identities ''id'' (out_file ?q)
                 = identities ''id'' existing @ map (\<lambda>i. JStr (item_id (items m ! i))) is"
      using is'(1) rs sink0 by (simp only:)
    have ids_saved: "map item_id (catalog s_end) = map item_id (items m)"
      using e s0(3) by simp
    show ?thesis
      unfolding sched sv using skip cnt ids is'(2) is'(3) set_js dist_js ids_saved
      by (intro conjI exI[of _ "is"]) auto
  qed
qed

section \<open>Resume: skipped items and the identities in the output\<close>

lemma gifs_resume_distinct:
  assumes "distinct (map url gifs)" "distinct (identities ''url'' existing)"
    "keeps_identity loads worlds ''url''"
  shows "distinct (identities ''url'' (out_file (gifs_main loads worlds ks gifs True existing)))"
proof -
  let ?r = "gifs_main loads worlds ks gifs True existing"
  from gifs_resume_run[OF assms(3), of ks gifs existing] obtain gs where
    skip: "\<forall>g \<in> set (scheduled ?r). JStr (url g) \<notin> set (identities ''url'' existing)"
    and ids: "identities ''url'' (out_file ?r)
                = identities ''url'' existing @ map (\<lambda>g. JStr (url g)) gs"
    and sub: "set gs \<subseteq> set (scheduled ?r)"
    and d: "distinct (map url gifs) \<longrightarrow> distinct (map url gs)"
    by blast
  have "distinct (map (\<lambda>g. JStr (url g)) gs)"
  proof -
    have "distinct gs \<and> inj_on url (set gs)"
      using d assms(1) by (simp add: distinct_map)
    then have "distinct gs \<and> inj_on (\<lambda>g. JStr (url g)) (set gs)"
      by (auto simp: inj_on_def)
    then show ?thesis by (simp add: distinct_map)
  qed
  moreover have "set (identities ''url'' existing) \<inter> set (map (\<lambda>g. JStr (url g)) gs) = {}"
    using skip sub by auto
  ultimately show ?thesis unfolding ids using assms(2) by simp
qed

lemma src_resume_distinct:
  assumes "distinct (map item_id (items m))" "distinct (identities ''id'' existing)"
    "keeps_identity loads worlds ''id''"
  shows "distinct (identities ''id''
           (out_file (process_source loads worlds ks dir m existing limit False)))"
proof -
  let ?q = "process_source loads worlds ks dir m existing limit False"
  from src_resume_run[OF assms(3), of ks dir m existing limit] obtain "is" where
    skip: "\<forall>i \<in> set (scheduled ?q). JStr (item_id (items m ! i)) \<notin> set (identities ''id'' existing)"
    and ids: "identities ''id'' (out_file ?q)
                = identities ''id'' existing @ map (\<lambda>i. JStr (item_id (items m ! i))) is"
    and sub: "set is \<subseteq> set (scheduled ?q)"
    and d: "distinct (map item_id (items m)) \<longrightarrow> distinct (map (\<lambda>i. item_id (items m ! i)) is)"
    by blast
  have "distinct (map (\<lambda>i. JStr (item_id (items m ! i))) is)"
  proof -
    have "distinct is \<and> inj_on (\<lambda>i. item_id (items m ! i)) (set is)"
      using d assms(1) by (simp add: distinct_map)
    then have "distinct is \<and> inj_on (\<lambda>i. JStr (item_id (items m ! i))) (set is)"
      by (auto simp: inj_on_def)
    then show ?thesis by (simp add: distinct_map)
  qed
  moreover have "set (identities ''id'' existing)
                   \<inter> set (map (\<lambda>i. JStr (item_id (items m ! i))) is) = {}"
    using skip sub by auto
  ultimately show ?thesis unfolding ids using assms(2) by simp
qed

lemma keeps_identity_examples:
  "keeps_identity example_loads second_job_offline key = (key \<noteq> ''mood'')"
  "keeps_identity example_loads (\<lambda>k. example_world) key = (key \<noteq> ''mood'')"
  by (auto simp: keeps_identity_def example_loads_def second_job_offline_def offline_world_def
      example_world_def clean_json_text_def py_strip_def py_isspace_def py_startswith_def
      split: if_splits)

lemma written_gifs_origin:
  "l \<in> set (written_gifs (map f js)) \<Longrightarrow> \<exists>j d. j \<in> set js \<and> f j = Inr (Described d) \<and> l = Parsed (JObj d)"
proof (induction js)
  case Nil
  then show ?case by simp
next
  case (Cons j js)
  show ?case
  proof (cases "f j")
    case (Inl e)
    then show ?thesis using Cons.prems by simp
  next
    case (Inr r)
    then show ?thesis using Cons by (cases r) (auto split: if_splits)
  qed
qed

lemma written_src_origin:
  "l \<in> set (written_src (map (\<lambda>j. (g j, f j)) js)) \<Longrightarrow>
   \<exists>j d. j \<in> set js \<and> f j = Some d \<and> l = Parsed (JObj d)"
proof (induction js)
  case Nil
  then show ?case by simp
next
  case (Cons j js)
  then show ?case by (cases "f j") (auto split: if_splits)
qed

lemma set_enumerate_jobs: "(k, x) \<in> set (enumerate_jobs xs) \<Longrightarrow> x \<in> set xs"
  by (auto simp: enumerate_jobs_def dest: set_zip_rightD)

lemma gifs_resume_skip:
  "(\<forall>g \<in> set (scheduled (gifs_main loads worlds ks gifs True existing)).
      JStr (url g) \<notin> set (identities ''url'' existing)) \<and>
   (\<forall>s \<in> set (states (gifs_main loads worlds ks gifs True existing)).
      success s + failed s + removed s
        \<le> length (scheduled (gifs_main loads worlds ks gifs True existing))) \<and>
   (\<exists>new. file_lines (out_file (gifs_main loads worlds ks gifs True existing))
             = file_lines existing @ new \<and>
           (\<forall>l \<in> set new. \<exists>k g d.
              g \<in> set (scheduled (gifs_main loads worlds ks gifs True existing)) \<and>
              fst (process_gif loads (worlds k) g) = Inr (Described d) \<and> l = Parsed (JObj d)))"
proof (cases rule: gifs_main_cases[of existing True loads worlds ks gifs])
  case (scan_raised e ls)
  then show ?thesis by (auto intro: exI[of _ "[]"])
next
  case nothing_to_do
  then show ?thesis by (auto intro: exI[of _ "[]"])
next
  case (ran tp s0 rs s_end)
  let ?r = "gifs_main loads worlds ks gifs True existing"
  let ?res = "\<lambda>(k, g). fst (process_gif loads (worlds k) g)"
  let ?js = "completion_order ks (enumerate_jobs tp)"
  have sched: "scheduled ?r = tp" and st: "states ?r = s0 # fst (consume_gifs rs s0)"
    and out: "out_file ?r = Some (sink s_end @ unflushed s_end)"
    using ran(6) by simp_all
  have skip: "\<forall>g \<in> set tp. JStr (url g) \<notin> set (identities ''url'' existing)"
    using ran(1) by (simp add: gifs_to_process_def gifs_skip_set_def)
  have s0: "unflushed s0 = []" "sink s0 = file_lines existing"
    "success s0 + failed s0 + removed s0 = 0"
    using ran(3) by (simp_all add: gifs_start_def)
  have cnt: "\<forall>s \<in> set (states ?r). success s + failed s + removed s \<le> length tp"
  proof
    fix s assume "s \<in> set (states ?r)"
    then have "s = s0 \<or> s \<in> set (fst (consume_gifs rs s0))" using st by simp
    then show "success s + failed s + removed s \<le> length tp"
      using s0(3) consume_gifs_count[of s rs s0] ran(4) length_gifs_results[of loads worlds ks tp]
      by auto
  qed
  have rs: "rs = map ?res ?js"
    using ran(4) by (simp add: gifs_results_def completion_order_map)
  have e: "sink s_end = file_lines existing @ written_gifs rs" "unflushed s_end = []"
    using consume_gifs_end[OF s0(1), of rs] ran(5) s0(2) by simp_all
  have fl: "file_lines (out_file ?r) = file_lines existing @ written_gifs rs"
    using out e by (simp add: file_lines_def)
  have origin: "\<exists>k g d. g \<in> set tp \<and> fst (process_gif loads (worlds k) g) = Inr (Described d)
                  \<and> l = Parsed (JObj d)"
    if "l \<in> set (written_gifs rs)" for l
  proof -
    from that rs written_gifs_origin[of l ?res ?js] obtain j d where
      j: "j \<in> set ?js" "?res j = Inr (Described d)" "l = Parsed (JObj d)"
      by blast
    obtain k g where kg: "j = (k, g)" by (cases j)
    have "(k, g) \<in> set (enumerate_jobs tp)"
      using j(1) kg by (simp add: set_completion_order)
    then have "g \<in> set tp" by (rule set_enumerate_jobs)
    then show ?thesis using j(2,3) kg by auto
  qed
  show ?thesis
    unfolding sched using skip cnt fl origin sched
    by (intro conjI exI[of _ "written_gifs rs"]) auto
qed

lemma src_resume_skip:
  "(\<forall>i \<in> set (scheduled (process_source loads worlds ks dir m existing limit False)).
      JStr (item_id (items m ! i)) \<notin> set (identities ''id'' existing)) \<and>
   (\<forall>s \<in> set (states (process_source loads worlds ks dir m existing limit False)).
      success s + failed s
        \<le> length (scheduled (process_source loads worlds ks dir m existing limit False))) \<and>
   (\<exists>new. file_lines (out_file (process_source loads worlds ks dir m existing limit False))
             = (if opened (process_source loads worlds ks dir m existing limit False)
                     = Some Truncate then [] else file_lines existing) @ new \<and>
           (\<forall>l \<in> set new. \<exists>k i d.
              i \<in> set (scheduled (process_source loads worlds ks dir m existing limit False)) \<and>
              fst (describe_item loads (worlds k) dir (items m ! i)) = Some d \<and>
              l = Parsed (JObj d)))"
proof (cases rule: process_source_cases[of existing False m limit loads worlds ks dir])
  case (scan_raised e ls)
  then show ?thesis by (auto intro: exI[of _ "[]"])
next
  case nothing_to_do
  then show ?thesis by (auto intro: exI[of _ "[]"])
next
  case (ran tp s0 rs s_end)
  let ?q = "process_source loads worlds ks dir m existing limit False"
  let ?res = "\<lambda>(k, i). (i, fst (describe_item loads (worlds k) dir (items m ! i)))"
  let ?js = "completion_order ks (enumerate_jobs tp)"
  have sched: "scheduled ?q = tp" and st: "states ?q = s0 # consume_src rs s0"
    and out: "out_file ?q = Some (sink s_end @ unflushed s_end)"
    and op: "opened ?q = Some (src_mode False existing)"
    using ran(6) by simp_all
  note tpp = src_to_process_props[of m existing limit False, folded ran(1)]
  have skip: "\<forall>i \<in> set tp. JStr (item_id (items m ! i)) \<notin> set (identities ''id'' existing)"
    using tpp by (simp add: src_skip_set_def)
  have s0: "unflushed s0 = []" "success s0 + failed s0 = 0"
    "sink s0 = (if src_mode False existing = Truncate then [] else file_lines existing)"
    using ran(3) by (simp_all add: src_start_def split: open_mode.splits)
  have cnt: "\<forall>s \<in> set (states ?q). success s + failed s \<le> length tp"
  proof
    fix s assume "s \<in> set (states ?q)"
    then have "s = s0 \<or> s \<in> set (consume_src rs s0)" using st by simp
    then show "success s + failed s \<le> length tp"
      using s0(2) consume_src_count[of s rs s0] ran(4)
        length_src_results[of loads worlds ks dir m tp]
      by auto
  qed
  have rs: "rs = map (\<lambda>j. (snd j, fst (describe_item loads (worlds (fst j)) dir (items m ! snd j)))) ?js"
    using ran(4) by (simp add: src_results_def completion_order_map case_prod_beta)
  note e = consume_src_end[OF s0(1), of rs, folded ran(5)]
  have fl: "file_lines (out_file ?q)
              = (if opened ?q = Some Truncate then [] else file_lines existing) @ written_src rs"
    using out e s0(3) op by (simp add: file_lines_def)
  have origin: "\<exists>k i d. i \<in> set tp \<and> fst (describe_item loads (worlds k) dir (items m ! i)) = Some d
                  \<and> l = Parsed (JObj d)"
    if "l \<in> set (written_src rs)" for l
  proof -
    from that rs
      written_src_origin[of l snd "\<lambda>j. fst (describe_item loads (worlds (fst j)) dir (items m ! snd j))" ?js]
    obtain j d where
      j: "j \<in> set ?js" "fst (describe_item loads (worlds (fst j)) dir (items m ! snd j)) = Some d"
        "l = Parsed (JObj d)"
      by blast
    obtain k i where ki: "j = (k, i)" by (cases j)
    have "(k, i) \<in> set (enumerate_jobs tp)"
      using j(1) ki by (simp add: set_completion_order)
    then have "i \<in> set tp" by (rule set_enumerate_jobs)
    then show ?thesis using j(2,3) ki by auto
  qed
  show ?thesis
    unfolding sched using skip cnt fl origin sched
    by (intro conjI exI[of _ "written_src rs"]) auto
qed

text \<open>
  Claim C5, as the code has it. Both engines, with resume on (\<open>--resume\<close>; force off),
  for every input, every existing output, every world and every completion order: an
  item whose identity is in the skip-set recovered from the existing output is not
  scheduled; the counters never exceed the number of scheduled jobs; and the file
  afterwards is the old content (nothing, where the manifest engine truncates) followed
  by lines each of which is the result of the job of a scheduled item. If the inference
  service never answers with an object that carries the identity key (\<open>"url"\<close>, \<open>"id"\<close>),
  every identity in the output afterwards was there before or is that of a scheduled
  item. If moreover the identities of the input items are pairwise distinct and the
  existing output has no duplicate identities, then after running twice the output has
  no duplicate identities; the second run of the manifest engine starts from the manifest
  that the first run saved, and the worlds, completion orders and limits of the two runs
  are independent.
\<close>

theorem resume_skips_processed_items:
  "(let r = gifs_main loads gwa ksa gifs True existing
    in (\<forall>g \<in> set (scheduled r). JStr (url g) \<notin> set (identities ''url'' existing)) \<and>
       (\<forall>s \<in> set (states r). success s + failed s + removed s \<le> length (scheduled r)) \<and>
       (\<exists>new. file_lines (out_file r) = file_lines existing @ new \<and>
               (\<forall>l \<in> set new. \<exists>k g d.
                  g \<in> set (scheduled r) \<and>
                  fst (process_gif loads (gwa k) g) = Inr (Described d) \<and> l = Parsed (JObj d))) \<and>
       (keeps_identity loads gwa ''url'' \<longrightarrow>
          set (identities ''url'' (out_file r))
            \<subseteq> set (identities ''url'' existing) \<union> (\<lambda>g. JStr (url g)) ` set (scheduled r))) \<and>
   (let q = process_source loads swa ksc dir m existing' lima False
    in (\<forall>i \<in> set (scheduled q). JStr (item_id (items m ! i)) \<notin> set (identities ''id'' existing')) \<and>
       (\<forall>s \<in> set (states q). success s + failed s \<le> length (scheduled q)) \<and>
       (\<exists>new. file_lines (out_file q)
                 = (if opened q = Some Truncate then [] else file_lines existing') @ new \<and>
               (\<forall>l \<in> set new. \<exists>k i d.
                  i \<in> set (scheduled q) \<and>
                  fst (describe_item loads (swa k) dir (items m ! i)) = Some d \<and>
                  l = Parsed (JObj d))) \<and>
       (keeps_identity loads swa ''id'' \<longrightarrow>
          set (identities ''id'' (out_file q))
            \<subseteq> set (identities ''id'' existing')
                \<union> (\<lambda>i. JStr (item_id (items m ! i))) ` set (scheduled q))) \<and>
   (distinct (map url gifs) \<and> distinct (identities ''url'' existing) \<and>
    keeps_identity loads gwa ''url'' \<and> keeps_identity loads gwb ''url'' \<longrightarrow>
      (let r1 = gifs_main loads gwa ksa gifs True existing;
           r2 = gifs_main loads gwb ksb gifs True (out_file r1)
       in distinct (identities ''url'' (out_file r2)))) \<and>
   (distinct (map item_id (items m)) \<and> distinct (identities ''id'' existing') \<and>
    keeps_identity loads swa ''id'' \<and> keeps_identity loads swb ''id'' \<longrightarrow>
      (let q1 = process_source loads swa ksc dir m existing' lima False;
           m2 = (case saved q1 of Some m' \<Rightarrow> m' | None \<Rightarrow> m);
           q2 = process_source loads swb ksd dir m2 (out_file q1) limb False
       in distinct (identities ''id'' (out_file q2))))"
proof -
  let ?r1 = "gifs_main loads gwa ksa gifs True existing"
  let ?r2 = "gifs_main loads gwb ksb gifs True (out_file ?r1)"
  let ?q1 = "process_source loads swa ksc dir m existing' lima False"
  let ?m2 = "case saved ?q1 of Some m' \<Rightarrow> m' | None \<Rightarrow> m"
  let ?q2 = "process_source loads swb ksd dir ?m2 (out_file ?q1) limb False"
  have gsub: "set (identities ''url'' (out_file ?r1))
          \<subseteq> set (identities ''url'' existing) \<union> (\<lambda>g. JStr (url g)) ` set (scheduled ?r1)"
    if k: "keeps_identity loads gwa ''url''"
  proof -
    from gifs_resume_run[OF k, of ksa gifs existing] obtain gs where
      i: "identities ''url'' (out_file ?r1) = identities ''url'' existing @ map (\<lambda>g. JStr (url g)) gs"
      and s: "set gs \<subseteq> set (scheduled ?r1)"
      by blast
    show ?thesis unfolding i using s by auto
  qed
  have ssub: "set (identities ''id'' (out_file ?q1))
          \<subseteq> set (identities ''id'' existing')
              \<union> (\<lambda>i. JStr (item_id (items m ! i))) ` set (scheduled ?q1)"
    if k: "keeps_identity loads swa ''id''"
  proof -
    from src_resume_run[OF k, of ksc dir m existing' lima] obtain "is" where
      i: "identities ''id'' (out_file ?q1)
            = identities ''id'' existing' @ map (\<lambda>i. JStr (item_id (items m ! i))) is"
      and s: "set is \<subseteq> set (scheduled ?q1)"
      by blast
    show ?thesis unfolding i using s by auto
  qed
  have G: "(\<forall>g \<in> set (scheduled ?r1). JStr (url g) \<notin> set (identities ''url'' existing)) \<and>
       (\<forall>s \<in> set (states ?r1). success s + failed s + removed s \<le> length (scheduled ?r1)) \<and>
       (\<exists>new. file_lines (out_file ?r1) = file_lines existing @ new \<and>
               (\<forall>l \<in> set new. \<exists>k g d.
                  g \<in> set (scheduled ?r1) \<and>
                  fst (process_gif loads (gwa k) g) = Inr (Described d) \<and> l = Parsed (JObj d))) \<and>
       (keeps_identity loads gwa ''url'' \<longrightarrow>
          set (identities ''url'' (out_file ?r1))
            \<subseteq> set (identities ''url'' existing) \<union> (\<lambda>g. JStr (url g)) ` set (scheduled ?r1))"
    using gifs_resume_skip[of loads gwa ksa gifs existing] gsub by blast
  have S: "(\<forall>i \<in> set (scheduled ?q1). JStr (item_id (items m ! i)) \<notin> set (identities ''id'' existing')) \<and>
       (\<forall>s \<in> set (states ?q1). success s + failed s \<le> length (scheduled ?q1)) \<and>
       (\<exists>new. file_lines (out_file ?q1)
                 = (if opened ?q1 = Some Truncate then [] else file_lines existing') @ new \<and>
               (\<forall>l \<in> set new. \<exists>k i d.
                  i \<in> set (scheduled ?q1) \<and>
                  fst (describe_item loads (swa k) dir (items m ! i)) = Some d \<and>
                  l = Parsed (JObj d))) \<and>
       (keeps_identity loads swa ''id'' \<longrightarrow>
          set (identities ''id'' (out_file ?q1))
            \<subseteq> set (identities ''id'' existing')
                \<union> (\<lambda>i. JStr (item_id (items m ! i))) ` set (scheduled ?q1))"
    using src_resume_skip[of loads swa ksc dir m existing' lima] ssub by blast
  have GD: "distinct (identities ''url'' (out_file ?r2))"
    if h: "distinct (map url gifs) \<and> distinct (identities ''url'' existing) \<and>
           keeps_identity loads gwa ''url'' \<and> keeps_identity loads gwb ''url''"
  proof -
    have "distinct (identities ''url'' (out_file ?r1))"
      using h by (intro gifs_resume_distinct) simp_all
    then show ?thesis using h by (intro gifs_resume_distinct) simp_all
  qed
  have SD: "distinct (identities ''id'' (out_file ?q2))"
    if h: "distinct (map item_id (items m)) \<and> distinct (identities ''id'' existing') \<and>
           keeps_identity loads swa ''id'' \<and> keeps_identity loads swb ''id''"
  proof -
    have k1: "keeps_identity loads swa ''id''" using h by simp
    have ids2: "map item_id (items ?m2) = map item_id (items m)"
      using src_resume_run[OF k1, of ksc dir m existing' lima] by (auto split: option.splits)
    have d1: "distinct (identities ''id'' (out_file ?q1))"
      using h by (intro src_resume_distinct) simp_all
    have dm2: "distinct (map item_id (items ?m2))" using h ids2 by simp
    show ?thesis using dm2 d1 h by (intro src_resume_distinct) simp_all
  qed
  show ?thesis unfolding Let_def using G S GD SD by (intro conjI impI) blast+
qed

text \<open>
  The theorem at two items per engine, from an empty start: in the first run the job
  submitted second is offline, so only the first item is written; the second run
  schedules the other item alone and the output ends with one record for each.
\<close>

theorem resume_skips_processed_items_witness:
  "distinct (map url [example_gif ''a'', example_gif ''b'']) \<and>
   distinct (identities ''url'' None) \<and>
   keeps_identity example_loads second_job_offline ''url'' \<and>
   keeps_identity example_loads (\<lambda>k. example_world) ''url'' \<and>
   distinct (map item_id (items two_item_manifest)) \<and>
   distinct (identities ''id'' None) \<and>
   keeps_identity example_loads second_job_offline ''id'' \<and>
   keeps_identity example_loads (\<lambda>k. example_world) ''id'' \<and>
   identities ''url''
     (out_file (gifs_main example_loads second_job_offline []
                  [example_gif ''a'', example_gif ''b''] True None)) = [JStr ''a''] \<and>
   scheduled (gifs_main example_loads (\<lambda>k. example_world) []
                [example_gif ''a'', example_gif ''b''] True
                (out_file (gifs_main example_loads second_job_offline []
                             [example_gif ''a'', example_gif ''b''] True None)))
     = [example_gif ''b''] \<and>
   identities ''url''
     (out_file (gifs_main example_loads (\<lambda>k. example_world) []
                  [example_gif ''a'', example_gif ''b''] True
                  (out_file (gifs_main example_loads second_job_offline []
                               [example_gif ''a'', example_gif ''b''] True None))))
     = [JStr ''a'', JStr ''b''] \<and>
   identities ''id''
     (out_file (process_source example_loads second_job_offline [] ''dir'' two_item_manifest
                  None 0 False)) = [JStr ''a''] \<and>
   scheduled (process_source example_loads (\<lambda>k. example_world) [] ''dir''
                (case saved (process_source example_loads second_job_offline [] ''dir''
                               two_item_manifest None 0 False) of
                   Some m' \<Rightarrow> m' | None \<Rightarrow> two_item_manifest)
                (out_file (process_source example_loads second_job_offline [] ''dir''
                             two_item_manifest None 0 False)) 0 False) = [1] \<and>
   identities ''id''
     (out_file (process_source example_loads (\<lambda>k. example_world) [] ''dir''
                  (case saved (process_source example_loads second_job_offline [] ''dir''
                                 two_item_manifest None 0 False) of
                     Some m' \<Rightarrow> m' | None \<Rightarrow> two_item_manifest)
                  (out_file (process_source example_loads second_job_offline [] ''dir''
                               two_item_manifest None 0 False)) 0 False))
     = [JStr ''a'', JStr ''b'']"
proof -
  have h1: "distinct (map url [example_gif ''a'', example_gif ''b''])"
    by (simp add: example_gif_def)
  have h2: "distinct (identities ''url'' None)" and h6: "distinct (identities ''id'' None)"
    by (simp_all add: identities_def)
  have h3: "keeps_identity example_loads second_job_offline ''url''"
    and h4: "keeps_identity example_loads (\<lambda>k. example_world) ''url''"
    and h7: "keeps_identity example_loads second_job_offline ''id''"
    and h8: "keeps_identity example_loads (\<lambda>k. example_world) ''id''"
    by (simp_all add: keeps_identity_examples)
  have h5: "distinct (map item_id (items two_item_manifest))"
    by (simp add: two_item_manifest_def example_item_def)
  have e1: "identities ''url''
     (out_file (gifs_main example_loads second_job_offline []
                  [example_gif ''a'', example_gif ''b''] True None)) = [JStr ''a'']"
    by code_simp
  have e2: "scheduled (gifs_main example_loads (\<lambda>k. example_world) []
                [example_gif ''a'', example_gif ''b''] True
                (out_file (gifs_main example_loads second_job_offline []
                             [example_gif ''a'', example_gif ''b''] True None)))
     = [example_gif ''b'']"
    by code_simp
  have e3: "identities ''url''
     (out_file (gifs_main example_loads (\<lambda>k. example_world) []
                  [example_gif ''a'', example_gif ''b''] True
                  (out_file (gifs_main example_loads second_job_offline []
                               [example_gif ''a'', example_gif ''b''] True None))))
     = [JStr ''a'', JStr ''b'']"
    by code_simp
  have e4: "identities ''id''
     (out_file (process_source example_loads second_job_offline [] ''dir'' two_item_manifest
                  None 0 False)) = [JStr ''a'']"
    by code_simp
  have e5: "scheduled (process_source example_loads (\<lambda>k. example_world) [] ''dir''
                (case saved (process_source example_loads second_job_offline [] ''dir''
                               two_item_manifest None 0 False) of
                   Some m' \<Rightarrow> m' | None \<Rightarrow> two_item_manifest)
                (out_file (process_source example_loads second_job_offline [] ''dir''
                             two_item_manifest None 0 False)) 0 False) = [1]"
    by code_simp
  have e6: "identities ''id''
     (out_file (process_source example_loads (\<lambda>k. example_world) [] ''dir''
                  (case saved (process_source example_loads second_job_offline [] ''dir''
                                 two_item_manifest None 0 False) of
                     Some m' \<Rightarrow> m' | None \<Rightarrow> two_item_manifest)
                  (out_file (process_source example_loads second_job_offline [] ''dir''
                               two_item_manifest None 0 False)) 0 False))
     = [JStr ''a'', JStr ''b'']"
    by code_simp
  note t = resume_skips_processed_items[where loads = example_loads
      and gwa = second_job_offline and ksa = "[]"
      and gifs = "[example_gif ''a'', example_gif ''b'']" and existing = None
      and gwb = "\<lambda>k. example_world" and ksb = "[]"
      and swa = second_job_offline and ksc = "[]" and dir = "''dir''"
      and m = two_item_manifest and existing' = None and lima = 0
      and swb = "\<lambda>k. example_world" and ksd = "[]" and limb = 0]
  show ?thesis
    using t h1 h2 h3 h4 h5 h6 h7 h8 e1 e2 e3 e4 e5 e6 by (simp only: simp_thms)
qed

text \<open>
  Claim C5 as stated holds for every input sequence. Neither engine compares the input
  items with one another: for an input that lists the same URL twice, both jobs are
  scheduled in the first run and both records are written, and the second run, which
  skips both, leaves the duplicate in the output.
\<close>

theorem duplicate_input_counterexample:
  "identities ''url''
     (out_file (gifs_main example_loads (\<lambda>k. example_world) []
                  [example_gif ''a'', example_gif ''a''] True
                  (out_file (gifs_main example_loads (\<lambda>k. example_world) []
                               [example_gif ''a'', example_gif ''a''] True None))))
     = [JStr ''a'', JStr ''a''] \<and>
   \<not> distinct (identities ''url''
     (out_file (gifs_main example_loads (\<lambda>k. example_world) []
                  [example_gif ''a'', example_gif ''a''] True
                  (out_file (gifs_main example_loads (\<lambda>k. example_world) []
                               [example_gif ''a'', example_gif ''a''] True None)))))"
proof -
  have e: "identities ''url''
     (out_file (gifs_main example_loads (\<lambda>k. example_world) []
                  [example_gif ''a'', example_gif ''a''] True
                  (out_file (gifs_main example_loads (\<lambda>k. example_world) []
                               [example_gif ''a'', example_gif ''a''] True None))))
     = [JStr ''a'', JStr ''a'']"
    by code_simp
  show ?thesis unfolding e by simp
qed

end
